theory Spec2Isabelle
  imports Complex_Main "HOL-Library.AList" "HOL-Library.Char_ord" "HOL-Library.List_Lexorder"
begin

section \<open>Python values, dictionaries and the object store\<close>

text \<open>
  The pipeline of \<^verbatim>\<open>utils/processor.py\<close> and \<^verbatim>\<open>utils/analyzer.py\<close> works on
  \<^verbatim>\<open>List[Dict]\<close>: lists of references to dictionaries decoded from JSON. A field value
  is a JSON scalar.
\<close>

text \<open>
  A Python float is a finite number, an infinity or NaN; \<^verbatim>\<open>json.loads\<close> and \<^verbatim>\<open>float\<close>
  produce all of them. The finite floats are taken among the rationals: the pipeline only
  compares floats, and Python compares an int with a float exactly. Its one division,
  of two list lengths, is exact in the model and rounded in Python.
\<close>

datatype pyfloat = Finite rat | PosInf | NegInf | NaN

text \<open>
  The order of the numbers, used to sort. NaN stands after every number only to make
  the order total: no sort of the model is read where a key is NaN.
\<close>

fun float_kind :: "pyfloat \<Rightarrow> nat" where
  "float_kind NegInf = 0"
| "float_kind (Finite r) = 1"
| "float_kind PosInf = 2"
| "float_kind NaN = 3"

instantiation pyfloat :: linorder
begin

fun less_eq_pyfloat :: "pyfloat \<Rightarrow> pyfloat \<Rightarrow> bool" where
  "less_eq_pyfloat (Finite a) (Finite b) = (a \<le> b)"
| "less_eq_pyfloat x y = (float_kind x \<le> float_kind y)"

definition less_pyfloat :: "pyfloat \<Rightarrow> pyfloat \<Rightarrow> bool" where
  "less_pyfloat x y = (x \<le> y \<and> \<not> y \<le> x)"

instance
proof
  fix x y z :: pyfloat
  show "(x < y) = (x \<le> y \<and> \<not> y \<le> x)" by (simp add: less_pyfloat_def)
  show "x \<le> x" by (cases x) auto
  show "x \<le> y \<Longrightarrow> y \<le> z \<Longrightarrow> x \<le> z" by (cases x; cases y; cases z) auto
  show "x \<le> y \<Longrightarrow> y \<le> x \<Longrightarrow> x = y" by (cases x; cases y) auto
  show "x \<le> y \<or> y \<le> x" by (cases x; cases y) auto
qed

end

text \<open>
  The comparisons of Python: \<^verbatim>\<open>a < b\<close> (and \<^verbatim>\<open>b > a\<close>) is false as soon as one side is
  NaN. \<^verbatim>\<open>x == 0\<close> holds of the finite number zero only.
\<close>

definition float_lt :: "pyfloat \<Rightarrow> pyfloat \<Rightarrow> bool" where
  "float_lt a b = (a \<noteq> NaN \<and> b \<noteq> NaN \<and> a < b)"

datatype pyval = PNone | PBool bool | PInt int | PFloat pyfloat | PStr string

text \<open>
  The exceptions of Python that the pipeline can raise. \<open>NotModelled\<close> is not one of
  them: it marks the one input on which the model declines to say what Python returns
  (a sort with a NaN key, see \<open>py_sort\<close>).
\<close>

datatype py_error =
  TypeError | ValueError string | KeyError string | AttributeError | OverflowError | NotModelled

text \<open>Truth value of an object, as \<^verbatim>\<open>if x\<close> and \<^verbatim>\<open>x if c else y\<close> test it.\<close>

fun py_truthy :: "pyval \<Rightarrow> bool" where
  "py_truthy PNone = False"
| "py_truthy (PBool b) = b"
| "py_truthy (PInt i) = (i \<noteq> 0)"
| "py_truthy (PFloat f) = (f \<noteq> Finite 0)"
| "py_truthy (PStr s) = (s \<noteq> [])"

text \<open>
  The value with which a number object takes part in a comparison (\<^verbatim>\<open>bool\<close> is a
  subclass of \<^verbatim>\<open>int\<close>; an int is compared exactly, whatever its size).
\<close>

fun py_num :: "pyval \<Rightarrow> pyfloat option" where
  "py_num (PBool b) = Some (Finite (if b then 1 else 0))"
| "py_num (PInt i) = Some (Finite (of_int i))"
| "py_num (PFloat f) = Some f"
| "py_num PNone = None"
| "py_num (PStr s) = None"

text \<open>
  \<^verbatim>\<open>float(x)\<close>. Two parts of the builtin are parameters: what it makes of a string
  (\<open>None\<close>: the string is not a number, \<^verbatim>\<open>ValueError\<close>) and of an int beyond
  \<open>2 ^ 53\<close> in absolute value, which it rounds to the nearest float (\<open>None\<close>: the int
  is too large, \<^verbatim>\<open>OverflowError\<close>). An int up to \<open>2 ^ 53\<close> is a float exactly; a float
  is returned as it is; \<^verbatim>\<open>float(None)\<close> is a \<^verbatim>\<open>TypeError\<close>.
\<close>

record float_builtin =
  str_to_float :: "string \<Rightarrow> pyfloat option"
  int_to_float :: "int \<Rightarrow> pyfloat option"

fun py_float :: "float_builtin \<Rightarrow> pyval \<Rightarrow> py_error + pyfloat" where
  "py_float fb PNone = Inl TypeError"
| "py_float fb (PStr s) =
     (case str_to_float fb s of None \<Rightarrow> Inl (ValueError s) | Some f \<Rightarrow> Inr f)"
| "py_float fb (PBool b) = Inr (Finite (if b then 1 else 0))"
| "py_float fb (PInt i) =
     (if \<bar>i\<bar> \<le> 2 ^ 53 then Inr (Finite (of_int i))
      else case int_to_float fb i of None \<Rightarrow> Inl OverflowError | Some f \<Rightarrow> Inr f)"
| "py_float fb (PFloat f) = Inr f"

text \<open>
  A \<^verbatim>\<open>dict\<close> keeps its keys in insertion order, and assigning to a key that is present
  keeps the key's place: an association list read by \<^const>\<open>map_of\<close> and written by
  \<^const>\<open>AList.update\<close>.
\<close>

type_synonym pydict = "(string \<times> pyval) list"

definition dict_get :: "pydict \<Rightarrow> string \<Rightarrow> pyval \<Rightarrow> pyval" where
  \<comment> \<open>\<^verbatim>\<open>d.get(k, default)\<close>; \<^verbatim>\<open>d.get(k)\<close> is \<open>dict_get d k PNone\<close>\<close>
  "dict_get d k dflt = (case map_of d k of None \<Rightarrow> dflt | Some v \<Rightarrow> v)"

definition dict_index :: "pydict \<Rightarrow> string \<Rightarrow> py_error + pyval" where
  \<comment> \<open>\<^verbatim>\<open>d[k]\<close>\<close>
  "dict_index d k = (case map_of d k of None \<Rightarrow> Inl (KeyError k) | Some v \<Rightarrow> Inr v)"

definition dict_set :: "pydict \<Rightarrow> string \<Rightarrow> pyval \<Rightarrow> pydict" where
  \<comment> \<open>\<^verbatim>\<open>d[k] = v\<close>\<close>
  "dict_set d k v = AList.update k v d"

text \<open>
  The dictionaries live in a store; a list of records is a list of addresses, so that
  two lists can share a record and an assignment through one is seen through the other.
  A function of the pipeline takes the store and returns its value or the exception it
  raised, together with the store it leaves behind.
\<close>

type_synonym addr = nat
type_synonym heap = "pydict list"

definition heap_set :: "heap \<Rightarrow> addr \<Rightarrow> string \<Rightarrow> pyval \<Rightarrow> heap" where
  \<comment> \<open>\<^verbatim>\<open>coin[k] = v\<close> for the record at address \<open>a\<close>\<close>
  "heap_set h a k v = h[a := dict_set (h ! a) k v]"

definition field :: "heap \<Rightarrow> addr \<Rightarrow> string \<Rightarrow> pyval option" where
  "field h a k = map_of (h ! a) k"

section \<open>The Enhancer: \<^verbatim>\<open>add_enhanced_columns\<close>\<close>

text \<open>
  \<^verbatim>\<open>
  for coin in data:
      price_change = coin.get('price_change_percentage_24h')
      coin['date'] = today
      coin['price_change_24h'] = float(price_change) if price_change else 0.0
      coin['change_symbol'] = "UP" if coin['price_change_24h'] > 0 else "DOWN"
  return data
  \<close>
  \<open>today\<close> is the string that \<^verbatim>\<open>datetime.now().strftime\<close> returned. The date is stored
  before \<^verbatim>\<open>float\<close> can raise. The comparison reads back the float just stored.
\<close>

definition enhanced_value :: "float_builtin \<Rightarrow> pyval \<Rightarrow> py_error + pyfloat" where
  \<comment> \<open>\<^verbatim>\<open>float(price_change) if price_change else 0.0\<close>\<close>
  "enhanced_value fb price_change =
     (if py_truthy price_change then py_float fb price_change else Inr (Finite 0))"

fun enhance_loop ::
  "float_builtin \<Rightarrow> string \<Rightarrow> addr list \<Rightarrow> heap \<Rightarrow> py_error option \<times> heap" where
  "enhance_loop fb today [] h = (None, h)"
| "enhance_loop fb today (coin # rest) h =
     (let price_change = dict_get (h ! coin) ''price_change_percentage_24h'' PNone;
          h1 = heap_set h coin ''date'' (PStr today)
      in case enhanced_value fb price_change of
           Inl e \<Rightarrow> (Some e, h1)
         | Inr f \<Rightarrow>
             let h2 = heap_set h1 coin ''price_change_24h'' (PFloat f);
                 h3 = heap_set h2 coin ''change_symbol''
                        (PStr (if float_lt (Finite 0) f then ''UP'' else ''DOWN''))
             in enhance_loop fb today rest h3)"

definition add_enhanced_columns ::
  "float_builtin \<Rightarrow> string \<Rightarrow> addr list \<Rightarrow> heap \<Rightarrow> (py_error + addr list) \<times> heap" where
  "add_enhanced_columns fb today data h =
     (case enhance_loop fb today data h of
        (None, h') \<Rightarrow> (Inr data, h')
      | (Some e, h') \<Rightarrow> (Inl e, h'))"



section \<open>The Normalizer: \<^verbatim>\<open>process_crypto_data\<close>\<close>

text \<open>
  \<^verbatim>\<open>s.upper()\<close> on the bytes of an ASCII string: the lower-case letters move to upper
  case and every other byte stays. An object that is not a string has no such method.
\<close>

definition upper_char :: "char \<Rightarrow> char" where
  "upper_char c =
     (let n = (of_char c :: nat) in if 97 \<le> n \<and> n \<le> 122 then char_of (n - 32) else c)"

definition str_upper :: "string \<Rightarrow> string" where
  "str_upper s = map upper_char s"

fun py_upper :: "pyval \<Rightarrow> py_error + pyval" where
  "py_upper (PStr s) = Inr (PStr (str_upper s))"
| "py_upper PNone = Inl AttributeError"
| "py_upper (PBool b) = Inl AttributeError"
| "py_upper (PInt i) = Inl AttributeError"
| "py_upper (PFloat r) = Inl AttributeError"

text \<open>
  The dictionary display of the loop body. Only \<^verbatim>\<open>.upper()\<close> can raise; the keys are
  inserted in the order written.
\<close>

definition processed_record :: "pydict \<Rightarrow> py_error + pydict" where
  "processed_record coin =
     (case py_upper (dict_get coin ''symbol'' (PStr [])) of
        Inl e \<Rightarrow> Inl e
      | Inr symbol \<Rightarrow> Inr
          [(''id'', dict_get coin ''id'' (PStr [])),
           (''rank'', dict_get coin ''market_cap_rank'' PNone),
           (''name'', dict_get coin ''name'' (PStr [])),
           (''symbol'', symbol),
           (''current_price'', dict_get coin ''current_price'' PNone),
           (''price_change_24h'', dict_get coin ''price_change_24h'' (PInt 0)),
           (''change_symbol'', dict_get coin ''change_symbol'' (PStr ''DOWN'')),
           (''market_cap'', dict_get coin ''market_cap'' PNone),
           (''volume_24h'', dict_get coin ''total_volume'' PNone),
           (''ath'', dict_get coin ''ath'' PNone),
           (''image'', dict_get coin ''image'' (PStr [])),
           (''date'', dict_get coin ''date'' (PStr [])),
           (''last_updated'', dict_get coin ''last_updated'' (PStr []))])"

text \<open>\<^verbatim>\<open>for coin in data: processed.append({...})\<close>: the new dictionaries, in input order.\<close>

fun build_processed :: "addr list \<Rightarrow> heap \<Rightarrow> py_error + pydict list" where
  "build_processed [] h = Inr []"
| "build_processed (coin # rest) h =
     (case processed_record (h ! coin) of
        Inl e \<Rightarrow> Inl e
      | Inr d \<Rightarrow>
          (case build_processed rest h of
             Inl e \<Rightarrow> Inl e
           | Inr ds \<Rightarrow> Inr (d # ds)))"

text \<open>
  Sort keys: numbers, among them \<^verbatim>\<open>float('inf')\<close>, and strings. Numbers compare with
  numbers and strings with strings; between a number and a string \<^verbatim>\<open><\<close> raises
  \<^verbatim>\<open>TypeError\<close>, so the order below puts the strings after the numbers only to be
  total, and \<open>py_sort\<close> never consults it across the two kinds.
\<close>

datatype pykey = KNum pyfloat | KStr string

abbreviation KInf :: pykey where
  "KInf \<equiv> KNum PosInf"

fun is_str_key :: "pykey \<Rightarrow> bool" where
  "is_str_key (KStr s) = True"
| "is_str_key (KNum f) = False"

fun is_nan_key :: "pykey \<Rightarrow> bool" where
  "is_nan_key (KNum f) = (f = NaN)"
| "is_nan_key (KStr s) = False"

instantiation pykey :: linorder
begin

fun less_eq_pykey :: "pykey \<Rightarrow> pykey \<Rightarrow> bool" where
  "less_eq_pykey (KNum a) (KNum b) = (a \<le> b)"
| "less_eq_pykey (KStr a) (KStr b) = (a \<le> b)"
| "less_eq_pykey (KNum a) (KStr b) = True"
| "less_eq_pykey (KStr a) (KNum b) = False"

definition less_pykey :: "pykey \<Rightarrow> pykey \<Rightarrow> bool" where
  "less_pykey x y = (x \<le> y \<and> \<not> y \<le> x)"

instance
proof
  fix x y z :: pykey
  show "(x < y) = (x \<le> y \<and> \<not> y \<le> x)" by (simp add: less_pykey_def)
  show "x \<le> x" by (cases x) auto
  show "x \<le> y \<Longrightarrow> y \<le> z \<Longrightarrow> x \<le> z" by (cases x; cases y; cases z) auto
  show "x \<le> y \<Longrightarrow> y \<le> x \<Longrightarrow> x = y" by (cases x; cases y) auto
  show "x \<le> y \<or> y \<le> x" by (cases x; cases y) auto
qed

end

text \<open>
  \<^verbatim>\<open>list.sort(key=...)\<close> is a stable comparison sort that asks only \<^verbatim>\<open><\<close>. With fewer
  than two elements it compares nothing. Otherwise, when all keys are of one kind and
  none is NaN, it returns the stable sorted list, and when a number key meets a string
  key it raises \<^verbatim>\<open>TypeError\<close>. With a NaN among the keys every comparison with it is
  false and the list returned depends on the merge strategy of the implementation:
  the model does not follow it and answers \<open>NotModelled\<close>.
\<close>

definition py_sort :: "('a \<Rightarrow> pykey) \<Rightarrow> 'a list \<Rightarrow> py_error + 'a list" where
  "py_sort key xs =
     (if length xs < 2 then Inr (sort_key key xs)
      else if list_ex (\<lambda>x. is_nan_key (key x)) xs then Inl NotModelled
      else if list_all (\<lambda>x. is_str_key (key x)) xs
           \<or> list_all (\<lambda>x. \<not> is_str_key (key x)) xs
      then Inr (sort_key key xs) else Inl TypeError)"

text \<open>
  \<^verbatim>\<open>lambda x: x['rank'] if x['rank'] else float('inf')\<close>. The key \<^verbatim>\<open>'rank'\<close> is in
  every dictionary that \<open>processed_record\<close> builds. A value that is chosen as a key is
  truthy, so it is a number or a non-empty string.
\<close>

fun key_of_value :: "pyval \<Rightarrow> pykey" where
  "key_of_value (PStr s) = KStr s"
| "key_of_value (PBool b) = KNum (Finite (if b then 1 else 0))"
| "key_of_value (PInt i) = KNum (Finite (of_int i))"
| "key_of_value (PFloat f) = KNum f"
| "key_of_value PNone = KInf"

definition rank_key :: "pydict \<Rightarrow> pykey" where
  "rank_key x =
     (let r = dict_get x ''rank'' PNone in if py_truthy r then key_of_value r else KInf)"

text \<open>\<^verbatim>\<open>for i, coin in enumerate(xs, start): coin[k] = i\<close>\<close>

fun enumerate_set :: "string \<Rightarrow> nat \<Rightarrow> addr list \<Rightarrow> heap \<Rightarrow> heap" where
  "enumerate_set k i [] h = h"
| "enumerate_set k i (coin # rest) h =
     enumerate_set k (Suc i) rest (heap_set h coin k (PInt (int i)))"

text \<open>
  The new dictionaries are allocated after the objects already in the store, in input
  order; the list of their addresses is sorted and numbered. When an exception is raised
  the dictionaries built so far are unreachable and are left out of the store.
\<close>

definition process_crypto_data :: "addr list \<Rightarrow> heap \<Rightarrow> (py_error + addr list) \<times> heap" where
  "process_crypto_data data h =
     (case build_processed data h of
        Inl e \<Rightarrow> (Inl e, h)
      | Inr ds \<Rightarrow>
          (let h1 = h @ ds;
               processed = [length h ..< length h + length ds]
           in case py_sort (\<lambda>a. rank_key (h1 ! a)) processed of
                Inl e \<Rightarrow> (Inl e, h)
              | Inr sorted_list \<Rightarrow> (Inr sorted_list, enumerate_set ''number'' 1 sorted_list h1)))"

text \<open>
  A record the Normalizer accepts whatever the rest of the batch holds: it is in the
  store, its \<^verbatim>\<open>symbol\<close> is absent or a string, and its \<^verbatim>\<open>market_cap_rank\<close> is absent,
  null or a number other than NaN.
\<close>

definition normalizable :: "heap \<Rightarrow> addr \<Rightarrow> bool" where
  "normalizable h c =
     (c < length h
      \<and> (case dict_get (h ! c) ''symbol'' (PStr []) of PStr s \<Rightarrow> True | _ \<Rightarrow> False)
      \<and> (case dict_get (h ! c) ''market_cap_rank'' PNone of
             PStr s \<Rightarrow> False | PFloat f \<Rightarrow> f \<noteq> NaN | _ \<Rightarrow> True))"

text \<open>
  The re-projection of the specification's idempotence property (section 8: "running
  Normalizer twice on its own output (re-projected)"). The repository has no such
  function; it is written here from the specification's words, through the Normalizer's
  own field mapping read backwards: \<^verbatim>\<open>rank\<close> goes back under \<^verbatim>\<open>market_cap_rank\<close>,
  \<^verbatim>\<open>volume_24h\<close> under \<^verbatim>\<open>total_volume\<close>, and every other key keeps its name.
\<close>

definition raw_key :: "string \<Rightarrow> string" where
  "raw_key k =
     (if k = ''rank'' then ''market_cap_rank''
      else if k = ''volume_24h'' then ''total_volume'' else k)"

definition reproject :: "pydict \<Rightarrow> pydict" where
  "reproject d = map (\<lambda>(k, v). (raw_key k, v)) d"

section \<open>The Ranker and the Summarizer: \<^verbatim>\<open>utils/analyzer.py\<close>\<close>

text \<open>
  \<^verbatim>\<open>c['price_change_24h']\<close> as an operand of \<^verbatim>\<open>> 0\<close> or \<^verbatim>\<open>< 0\<close>: \<^verbatim>\<open>KeyError\<close> when the
  key is missing, \<^verbatim>\<open>TypeError\<close> when the value is \<^verbatim>\<open>None\<close> or a string. \<^verbatim>\<open>== 0\<close>
  never raises: it is false for a value that is not a number. All three comparisons
  are false of NaN.
\<close>

definition change_num :: "pydict \<Rightarrow> py_error + pyfloat" where
  "change_num c =
     (case dict_index c ''price_change_24h'' of
        Inl e \<Rightarrow> Inl e
      | Inr v \<Rightarrow> (case py_num v of None \<Rightarrow> Inl TypeError | Some r \<Rightarrow> Inr r))"

definition has_change :: "heap \<Rightarrow> addr \<Rightarrow> bool" where
  \<comment> \<open>the record at \<open>a\<close> has a number under \<^verbatim>\<open>'price_change_24h'\<close>\<close>
  "has_change h a = (case change_num (h ! a) of Inr r \<Rightarrow> True | Inl e \<Rightarrow> False)"

definition change_gt0 :: "pydict \<Rightarrow> py_error + bool" where
  "change_gt0 c = (case change_num c of Inl e \<Rightarrow> Inl e | Inr r \<Rightarrow> Inr (float_lt (Finite 0) r))"

definition change_lt0 :: "pydict \<Rightarrow> py_error + bool" where
  "change_lt0 c = (case change_num c of Inl e \<Rightarrow> Inl e | Inr r \<Rightarrow> Inr (float_lt r (Finite 0)))"

definition change_eq0 :: "pydict \<Rightarrow> py_error + bool" where
  "change_eq0 c =
     (case dict_index c ''price_change_24h'' of
        Inl e \<Rightarrow> Inl e
      | Inr v \<Rightarrow> Inr (py_num v = Some (Finite 0)))"

text \<open>\<^verbatim>\<open>[c for c in data if test(c)]\<close>\<close>

fun py_filter :: "(pydict \<Rightarrow> py_error + bool) \<Rightarrow> addr list \<Rightarrow> heap \<Rightarrow> py_error + addr list" where
  "py_filter test [] h = Inr []"
| "py_filter test (c # cs) h =
     (case test (h ! c) of
        Inl e \<Rightarrow> Inl e
      | Inr b \<Rightarrow>
          (case py_filter test cs h of
             Inl e \<Rightarrow> Inl e
           | Inr ys \<Rightarrow> Inr (if b then c # ys else ys)))"

text \<open>
  \<^verbatim>\<open>lambda x: x['price_change_24h']\<close> on a record that passed one of the comparisons
  above, where the value is a number.
\<close>

definition change_key :: "heap \<Rightarrow> addr \<Rightarrow> pyfloat" where
  "change_key h a = (case change_num (h ! a) of Inr r \<Rightarrow> r | Inl e \<Rightarrow> Finite 0)"

text \<open>
  \<^verbatim>\<open>sorted(xs, key=f)\<close> and \<^verbatim>\<open>sorted(xs, key=f, reverse=True)\<close> on number keys none of
  which is NaN, as the keys of the records are that passed \<^verbatim>\<open>> 0\<close> or \<^verbatim>\<open>< 0\<close>. The
  reverse sort keeps equal elements in their original order: the list is reversed,
  sorted stably and reversed again.
\<close>

definition py_sorted :: "('a \<Rightarrow> pyfloat) \<Rightarrow> 'a list \<Rightarrow> 'a list" where
  "py_sorted key xs = sort_key key xs"

definition py_sorted_reverse :: "('a \<Rightarrow> pyfloat) \<Rightarrow> 'a list \<Rightarrow> 'a list" where
  "py_sorted_reverse key xs = rev (sort_key key (rev xs))"

text \<open>\<^verbatim>\<open>xs[:limit]\<close>; a negative limit counts from the end.\<close>

definition py_slice_to :: "int \<Rightarrow> 'a list \<Rightarrow> 'a list" where
  "py_slice_to limit xs =
     (if 0 \<le> limit then take (nat limit) xs else take (length xs - nat (- limit)) xs)"

definition get_top_gainers :: "addr list \<Rightarrow> int \<Rightarrow> heap \<Rightarrow> (py_error + addr list) \<times> heap" where
  "get_top_gainers data limit h =
     (case py_filter change_gt0 data h of
        Inl e \<Rightarrow> (Inl e, h)
      | Inr gainers \<Rightarrow>
          (let top = py_slice_to limit (py_sorted_reverse (change_key h) gainers)
           in (Inr top, enumerate_set ''gainer_rank'' 1 top h)))"

definition get_top_losers :: "addr list \<Rightarrow> int \<Rightarrow> heap \<Rightarrow> (py_error + addr list) \<times> heap" where
  "get_top_losers data limit h =
     (case py_filter change_lt0 data h of
        Inl e \<Rightarrow> (Inl e, h)
      | Inr losers \<Rightarrow>
          (let top = py_slice_to limit (py_sorted (change_key h) losers)
           in (Inr top, enumerate_set ''loser_rank'' 1 top h)))"

text \<open>
  \<^verbatim>\<open>max(data, key=f)\<close> and \<^verbatim>\<open>min(data, key=f)\<close> scan from the first element and replace
  the candidate only when \<^verbatim>\<open>f(x) > f(best)\<close>, respectively \<^verbatim>\<open>f(x) < f(best)\<close>, which
  is false when either key is NaN.
\<close>

fun max_loop :: "('a \<Rightarrow> pyfloat) \<Rightarrow> 'a \<Rightarrow> 'a list \<Rightarrow> 'a" where
  "max_loop key best [] = best"
| "max_loop key best (x # xs) =
     max_loop key (if float_lt (key best) (key x) then x else best) xs"

fun min_loop :: "('a \<Rightarrow> pyfloat) \<Rightarrow> 'a \<Rightarrow> 'a list \<Rightarrow> 'a" where
  "min_loop key best [] = best"
| "min_loop key best (x # xs) =
     min_loop key (if float_lt (key x) (key best) then x else best) xs"

text \<open>
  The summary dictionary: counts, percentages and references to the two records.
  \<^verbatim>\<open>{}\<close> is the empty association list.
\<close>

datatype sumval = SInt nat | SFloat rat | SCoin addr

definition generate_market_summary ::
  "addr list \<Rightarrow> heap \<Rightarrow> (py_error + (string \<times> sumval) list) \<times> heap" where
  "generate_market_summary data h =
     (case data of
        [] \<Rightarrow> (Inr [], h)
      | first # rest \<Rightarrow>
          (case py_filter change_gt0 data h of
             Inl e \<Rightarrow> (Inl e, h)
           | Inr gainers \<Rightarrow>
          (case py_filter change_lt0 data h of
             Inl e \<Rightarrow> (Inl e, h)
           | Inr losers \<Rightarrow>
          (case py_filter change_eq0 data h of
             Inl e \<Rightarrow> (Inl e, h)
           | Inr neutral \<Rightarrow>
               (let total = length data;
                    top_gainer = max_loop (change_key h) first rest;
                    top_loser = min_loop (change_key h) first rest
                in (Inr [(''total_coins'', SInt total),
                         (''gainers_count'', SInt (length gainers)),
                         (''losers_count'', SInt (length losers)),
                         (''neutral_count'', SInt (length neutral)),
                         (''gainers_percentage'',
                            SFloat (of_nat (length gainers) / of_nat total * 100)),
                         (''losers_percentage'',
                            SFloat (of_nat (length losers) / of_nat total * 100)),
                         (''top_gainer'', SCoin top_gainer),
                         (''top_loser'', SCoin top_loser)], h))))))"

section \<open>Sample batches\<close>

text \<open>
  What \<^verbatim>\<open>float\<close> returns on the strings of the samples: \<^verbatim>\<open>'5.2'\<close> and \<^verbatim>\<open>'nan'\<close> are
  parsed, every other string that occurs is rejected; no sample holds a large int.
\<close>

definition example_float :: float_builtin where
  "example_float =
     \<lparr>str_to_float = (\<lambda>s. if s = ''5.2'' then Some (Finite (26 / 5))
                           else if s = ''nan'' then Some NaN else None),
      int_to_float = (\<lambda>i. None)\<rparr>"

text \<open>Three raw records as the market-data API delivers them, at addresses 0, 1 and 2.\<close>

definition example_raw :: heap where
  "example_raw =
     [[(''id'', PStr ''btc''), (''symbol'', PStr ''btc''), (''market_cap_rank'', PInt 1),
       (''price_change_percentage_24h'', PFloat (Finite (26 / 5)))],
      [(''id'', PStr ''eth''), (''symbol'', PStr ''eth''), (''market_cap_rank'', PInt 2),
       (''price_change_percentage_24h'', PNone)],
      [(''id'', PStr ''xrp''), (''symbol'', PStr ''xrp''), (''market_cap_rank'', PNone),
       (''price_change_percentage_24h'', PFloat (Finite (- 31 / 10)))]]"

text \<open>The sample batch after the Enhancer, and the store after the Normalizer.\<close>

definition example_enhanced :: heap where
  "example_enhanced = snd (add_enhanced_columns example_float ''04-11-2026'' [0, 1, 2] example_raw)"

definition example_normalized :: heap where
  "example_normalized = snd (process_crypto_data [0, 1, 2] example_enhanced)"

text \<open>Six normalized records with ties in the 24h change, at addresses 0 to 5.\<close>

definition example_market :: heap where
  "example_market =
     [[(''id'', PStr ''a''), (''rank'', PInt 1), (''price_change_24h'', PFloat (Finite 5)), (''number'', PInt 1)],
      [(''id'', PStr ''b''), (''rank'', PInt 2), (''price_change_24h'', PFloat (Finite (- 3))), (''number'', PInt 2)],
      [(''id'', PStr ''c''), (''rank'', PInt 3), (''price_change_24h'', PFloat (Finite 5)), (''number'', PInt 3)],
      [(''id'', PStr ''d''), (''rank'', PInt 4), (''price_change_24h'', PFloat (Finite 0)), (''number'', PInt 4)],
      [(''id'', PStr ''e''), (''rank'', PInt 5), (''price_change_24h'', PFloat (Finite (- 3))), (''number'', PInt 5)],
      [(''id'', PStr ''f''), (''rank'', PInt 6), (''price_change_24h'', PFloat (Finite 2)), (''number'', PInt 6)]]"

text \<open>
  A batch whose second record carries a percentage that is not a number, and a batch
  whose only record carries the empty string.
\<close>

definition example_malformed :: heap where
  "example_malformed =
     [[(''id'', PStr ''btc''), (''price_change_percentage_24h'', PFloat (Finite (26 / 5)))],
      [(''id'', PStr ''eth''), (''price_change_percentage_24h'', PStr ''abc'')],
      [(''id'', PStr ''xrp''), (''price_change_percentage_24h'', PFloat (Finite (- 31 / 10)))]]"

definition example_empty_string :: heap where
  "example_empty_string =
     [[(''id'', PStr ''eth''), (''price_change_percentage_24h'', PStr [])]]"


text \<open>Three normalized records, the first with NaN as its 24h change.\<close>

definition example_nan_market :: heap where
  "example_nan_market =
     [[(''id'', PStr ''a''), (''rank'', PInt 1), (''price_change_24h'', PFloat NaN), (''number'', PInt 1)],
      [(''id'', PStr ''b''), (''rank'', PInt 2), (''price_change_24h'', PFloat (Finite 5)), (''number'', PInt 2)],
      [(''id'', PStr ''c''), (''rank'', PInt 3), (''price_change_24h'', PFloat (Finite 3)), (''number'', PInt 3)]]"

text \<open>A batch with a record of rank 0, a record of rank 1 and a record without a rank.\<close>

definition example_zero_rank :: heap where
  "example_zero_rank =
     [[(''id'', PStr ''zro''), (''symbol'', PStr ''zro''), (''market_cap_rank'', PInt 0)],
      [(''id'', PStr ''one''), (''symbol'', PStr ''one''), (''market_cap_rank'', PInt 1)],
      [(''id'', PStr ''nul''), (''symbol'', PStr ''nul''), (''market_cap_rank'', PNone)]]"

text \<open>Reading a key of the dictionary that the Summarizer returned.\<close>

definition summary_field ::
  "(py_error + (string \<times> sumval) list) \<times> heap \<Rightarrow> string \<Rightarrow> sumval option" where
  "summary_field res k = (case fst res of Inl e \<Rightarrow> None | Inr s \<Rightarrow> map_of s k)"

section \<open>Store lemmas and the Enhancer\<close>

lemma float_lt_iff: "a \<noteq> NaN \<Longrightarrow> b \<noteq> NaN \<Longrightarrow> float_lt a b = (a < b)"
  by (simp add: float_lt_def)

lemma Finite_less [simp]: "(Finite a < Finite b) = (a < b)"
  by (auto simp: less_pyfloat_def)

lemma float_lt_NaN [simp]: "\<not> float_lt NaN b" "\<not> float_lt a NaN"
  by (simp_all add: float_lt_def)

lemma float_lt_Finite [simp]: "float_lt (Finite a) (Finite b) = (a < b)"
  by (auto simp: float_lt_def less_pyfloat_def)

lemma float_three_way:
  "v \<noteq> NaN \<Longrightarrow>
   (float_lt (Finite 0) v \<and> \<not> float_lt v (Finite 0) \<and> v \<noteq> Finite 0)
   \<or> (\<not> float_lt (Finite 0) v \<and> float_lt v (Finite 0) \<and> v \<noteq> Finite 0)
   \<or> (\<not> float_lt (Finite 0) v \<and> \<not> float_lt v (Finite 0) \<and> v = Finite 0)"
  by (cases v) (auto simp: float_lt_def less_pyfloat_def)

lemma field_heap_set:
  "field (heap_set h a k v) b k' =
     (if b = a \<and> a < length h \<and> k' = k then Some v else field h b k')"
  by (cases "b = a"; cases "a < length h")
     (auto simp: field_def heap_set_def dict_set_def update_conv' list_update_beyond)

lemma length_heap_set [simp]: "length (heap_set h a k v) = length h"
  by (simp add: heap_set_def)

lemma heap_set_other: "b \<noteq> a \<Longrightarrow> heap_set h a k v ! b = h ! b"
  by (simp add: heap_set_def)

lemma dict_get_field: "dict_get (h ! a) k d = (case field h a k of None \<Rightarrow> d | Some v \<Rightarrow> v)"
  by (simp add: dict_get_def field_def)

lemma enhance_loop_length:
  "enhance_loop fb today data h = (r, h') \<Longrightarrow> length h' = length h"
  by (induction data arbitrary: h) (auto simp: Let_def split: sum.splits)

lemma enhance_loop_frame:
  "enhance_loop fb today data h = (r, h') \<Longrightarrow>
   k \<notin> {''date'', ''price_change_24h'', ''change_symbol''} \<Longrightarrow> field h' a k = field h a k"
  by (induction data arbitrary: h) (auto simp: Let_def field_heap_set split: sum.splits)



lemma enhance_loop_succeeds:
  "\<forall>c\<in>set data. \<exists>f. enhanced_value fb
        (dict_get (h ! c) ''price_change_percentage_24h'' PNone) = Inr f \<Longrightarrow>
   fst (enhance_loop fb today data h) = None"
proof (induction data arbitrary: h)
  case Nil
  then show ?case by simp
next
  case (Cons coin rest)
  from Cons.prems obtain f where
    f: "enhanced_value fb (dict_get (h ! coin) ''price_change_percentage_24h'' PNone) = Inr f"
    by auto
  define h3 where "h3 = heap_set (heap_set (heap_set h coin ''date'' (PStr today))
      coin ''price_change_24h'' (PFloat f)) coin ''change_symbol''
        (PStr (if float_lt (Finite 0) f then ''UP'' else ''DOWN''))"
  have "dict_get (h3 ! c) ''price_change_percentage_24h'' PNone
      = dict_get (h ! c) ''price_change_percentage_24h'' PNone" for c
    by (simp add: dict_get_field h3_def field_heap_set)
  with Cons.prems have "fst (enhance_loop fb today rest h3) = None"
    by (intro Cons.IH) simp
  with f show ?case by (simp add: Let_def h3_def)
qed





section \<open>Numbering, filtering and sorting lemmas\<close>

lemma enumerate_set_length [simp]: "length (enumerate_set k i as h) = length h"
  by (induction as arbitrary: i h) simp_all

lemma enumerate_set_other: "a \<notin> set as \<Longrightarrow> enumerate_set k i as h ! a = h ! a"
  by (induction as arbitrary: i h) (auto simp: heap_set_other)

lemma enumerate_set_frame: "k' \<noteq> k \<Longrightarrow> field (enumerate_set k i as h) a k' = field h a k'"
  by (induction as arbitrary: i h) (simp_all add: field_heap_set)

lemma heap_set_same: "a < length h \<Longrightarrow> heap_set h a k v ! a = dict_set (h ! a) k v"
  by (simp add: heap_set_def)

lemma enumerate_set_nth:
  "distinct as \<Longrightarrow> j < length as \<Longrightarrow> as ! j < length h \<Longrightarrow>
   enumerate_set k i as h ! (as ! j) = dict_set (h ! (as ! j)) k (PInt (int (i + j)))"
proof (induction as arbitrary: i j h)
  case Nil
  then show ?case by simp
next
  case (Cons a as)
  show ?case
  proof (cases j)
    case 0
    with Cons.prems show ?thesis
      by (simp add: enumerate_set_other heap_set_same)
  next
    case (Suc j')
    with Cons.prems have neq: "as ! j' \<noteq> a" by auto
    from Suc Cons.prems have "enumerate_set k (Suc i) as (heap_set h a k (PInt (int i))) ! (as ! j')
        = dict_set (heap_set h a k (PInt (int i)) ! (as ! j')) k (PInt (int (Suc i + j')))"
      by (intro Cons.IH) simp_all
    with Suc neq show ?thesis by (simp add: heap_set_other)
  qed
qed

lemma field_dict_set: "map_of (dict_set d k v) k' = (if k' = k then Some v else map_of d k')"
  by (simp add: dict_set_def update_conv')

lemma enumerate_set_rank:
  "distinct as \<Longrightarrow> j < length as \<Longrightarrow> as ! j < length h \<Longrightarrow>
   field (enumerate_set k i as h) (as ! j) k = Some (PInt (int (i + j)))"
  by (simp add: field_def enumerate_set_nth field_dict_set)

lemma change_num_field:
  "field h' a ''price_change_24h'' = field h a ''price_change_24h'' \<Longrightarrow>
   change_num (h' ! a) = change_num (h ! a)"
  by (simp add: change_num_def dict_index_def field_def)

lemma py_filter_Inr:
  "\<forall>c\<in>set cs. \<exists>b. test (h ! c) = Inr b \<Longrightarrow>
   py_filter test cs h = Inr (filter (\<lambda>c. test (h ! c) = Inr True) cs)"
  by (induction cs) auto

lemma py_filter_InrD:
  "py_filter test cs h = Inr ys \<Longrightarrow> ys = filter (\<lambda>c. test (h ! c) = Inr True) cs"
  by (induction cs arbitrary: ys) (auto split: sum.splits)

lemma py_filter_subset: "py_filter test cs h = Inr ys \<Longrightarrow> set ys \<subseteq> set cs"
  by (auto dest: py_filter_InrD)

lemma has_changeD: "has_change h a \<Longrightarrow> change_num (h ! a) = Inr (change_key h a)"
  by (auto simp: has_change_def change_key_def split: sum.splits)

lemma filter_gt0:
  "\<forall>a\<in>set data. has_change h a \<Longrightarrow>
   py_filter change_gt0 data h = Inr (filter (\<lambda>a. float_lt (Finite 0) (change_key h a)) data)"
proof -
  assume ok: "\<forall>a\<in>set data. has_change h a"
  then have "py_filter change_gt0 data h = Inr (filter (\<lambda>c. change_gt0 (h ! c) = Inr True) data)"
    by (intro py_filter_Inr) (auto simp: change_gt0_def dest!: has_changeD)
  also have "filter (\<lambda>c. change_gt0 (h ! c) = Inr True) data = filter (\<lambda>a. float_lt (Finite 0) (change_key h a)) data"
    using ok by (intro filter_cong) (auto simp: change_gt0_def dest!: has_changeD)
  finally show ?thesis .
qed

lemma filter_lt0:
  "\<forall>a\<in>set data. has_change h a \<Longrightarrow>
   py_filter change_lt0 data h = Inr (filter (\<lambda>a. float_lt (change_key h a) (Finite 0)) data)"
proof -
  assume ok: "\<forall>a\<in>set data. has_change h a"
  then have "py_filter change_lt0 data h = Inr (filter (\<lambda>c. change_lt0 (h ! c) = Inr True) data)"
    by (intro py_filter_Inr) (auto simp: change_lt0_def dest!: has_changeD)
  also have "filter (\<lambda>c. change_lt0 (h ! c) = Inr True) data = filter (\<lambda>a. float_lt (change_key h a) (Finite 0)) data"
    using ok by (intro filter_cong) (auto simp: change_lt0_def dest!: has_changeD)
  finally show ?thesis .
qed

lemma filter_eq0:
  "\<forall>a\<in>set data. has_change h a \<Longrightarrow>
   py_filter change_eq0 data h = Inr (filter (\<lambda>a. change_key h a = Finite 0) data)"
proof -
  assume ok: "\<forall>a\<in>set data. has_change h a"
  have eq: "change_eq0 (h ! c) = Inr (change_key h c = Finite 0)" if "c \<in> set data" for c
  proof -
    from ok that have "has_change h c" by blast
    then show ?thesis
      by (auto simp: change_eq0_def has_change_def change_key_def change_num_def
               split: sum.splits option.splits)
  qed
  then have "py_filter change_eq0 data h = Inr (filter (\<lambda>c. change_eq0 (h ! c) = Inr True) data)"
    by (intro py_filter_Inr) auto
  also have "filter (\<lambda>c. change_eq0 (h ! c) = Inr True) data = filter (\<lambda>a. change_key h a = Finite 0) data"
    using eq by (intro filter_cong) auto
  finally show ?thesis .
qed

lemma sorted_reverse_desc: "sorted (rev (map key (py_sorted_reverse key xs)))"
  by (simp add: py_sorted_reverse_def rev_map [symmetric])

lemma sorted_reverse_stable:
  "filter (\<lambda>a. key a = k) (py_sorted_reverse key xs) = filter (\<lambda>a. key a = k) xs"
  by (simp add: py_sorted_reverse_def rev_filter [symmetric] sort_key_stable)

lemma sorted_reverse_set [simp]: "set (py_sorted_reverse key xs) = set xs"
  by (simp add: py_sorted_reverse_def)

lemma sorted_reverse_distinct [simp]: "distinct (py_sorted_reverse key xs) = distinct xs"
  by (simp add: py_sorted_reverse_def)

lemma sorted_reverse_length [simp]: "length (py_sorted_reverse key xs) = length xs"
  by (simp add: py_sorted_reverse_def)

section \<open>The Ranker\<close>

lemma slice_to_nonneg: "0 \<le> L \<Longrightarrow> py_slice_to L xs = take (nat L) xs"
  by (simp add: py_slice_to_def)

lemma top_ranks:
  assumes "distinct S" "set S \<subseteq> set data" "\<forall>a\<in>set data. a < length h"
    and "top_n = take n S" "i < length top_n"
  shows "field (enumerate_set k 1 top_n h) (top_n ! i) k = Some (PInt (int i + 1))"
proof -
  have "distinct top_n" using assms(1,4) by simp
  moreover have "top_n ! i \<in> set S" using assms(4,5) by (metis in_set_takeD nth_mem)
  then have "top_n ! i < length h" using assms(2,3) by blast
  ultimately have "field (enumerate_set k 1 top_n h) (top_n ! i) k = Some (PInt (int (1 + i)))"
    using assms(5) by (intro enumerate_set_rank)
  then show ?thesis by (simp add: add.commute)
qed

text \<open>
  C3. For a list of distinct records that each hold a number under \<open>price_change_24h\<close>
  and a limit \<open>L \<ge> 0\<close>, both functions return. The gainers are the first \<open>L\<close>
  elements of a list \<open>S\<close> that holds exactly the records with a change above zero,
  none of them NaN, in descending order of the change and with records of equal change
  in input order; \<open>gainer_rank\<close> of the element at position \<open>i\<close> is \<open>i + 1\<close>. The
  losers are the same with a change below zero, ascending order and \<open>loser_rank\<close>.
  Taking the first \<open>L\<close> elements returns all of \<open>S\<close> when it is shorter than \<open>L\<close>,
  and \<open>S\<close> may be empty.
\<close>

theorem ranker_top_subsets:
  assumes dist: "distinct data"
    and ok: "\<forall>a\<in>set data. a < length h \<and> has_change h a"
    and L: "0 \<le> L"
  shows "(\<exists>top_n h' S. get_top_gainers data L h = (Inr top_n, h')
            \<and> set S = {a \<in> set data. float_lt (Finite 0) (change_key h a)}
            \<and> distinct S
            \<and> (\<forall>a\<in>set S. change_key h a \<noteq> NaN)
            \<and> sorted (rev (map (change_key h) S))
            \<and> (\<forall>k. filter (\<lambda>a. change_key h a = k) S
                   = filter (\<lambda>a. change_key h a = k) (filter (\<lambda>a. float_lt (Finite 0) (change_key h a)) data))
            \<and> top_n = take (nat L) S
            \<and> (\<forall>i<length top_n. field h' (top_n ! i) ''gainer_rank'' = Some (PInt (int i + 1))))
       \<and> (\<exists>top_n h' S. get_top_losers data L h = (Inr top_n, h')
            \<and> set S = {a \<in> set data. float_lt (change_key h a) (Finite 0)}
            \<and> distinct S
            \<and> (\<forall>a\<in>set S. change_key h a \<noteq> NaN)
            \<and> sorted (map (change_key h) S)
            \<and> (\<forall>k. filter (\<lambda>a. change_key h a = k) S
                   = filter (\<lambda>a. change_key h a = k) (filter (\<lambda>a. float_lt (change_key h a) (Finite 0)) data))
            \<and> top_n = take (nat L) S
            \<and> (\<forall>i<length top_n. field h' (top_n ! i) ''loser_rank'' = Some (PInt (int i + 1))))"
proof (rule conjI)
  from ok have hc: "\<forall>a\<in>set data. has_change h a" and lt: "\<forall>a\<in>set data. a < length h"
    by blast+
  define G where "G = filter (\<lambda>a. float_lt (Finite 0) (change_key h a)) data"
  define S where "S = py_sorted_reverse (change_key h) G"
  define top_n where "top_n = take (nat L) S"
  define h' where "h' = enumerate_set ''gainer_rank'' 1 top_n h"
  have run: "get_top_gainers data L h = (Inr top_n, h')"
    using L by (simp add: get_top_gainers_def filter_gt0 [OF hc] slice_to_nonneg Let_def
        G_def S_def top_n_def h'_def)
  have S1: "set S = {a \<in> set data. float_lt (Finite 0) (change_key h a)}" by (auto simp: S_def G_def)
  have S2: "distinct S" using dist by (simp add: S_def G_def)
  have S3: "sorted (rev (map (change_key h) S))" by (simp add: S_def sorted_reverse_desc)
  have S6: "\<forall>a\<in>set S. change_key h a \<noteq> NaN" unfolding S1 by (auto simp: float_lt_def)
  have S4: "\<forall>k. filter (\<lambda>a. change_key h a = k) S
                   = filter (\<lambda>a. change_key h a = k) (filter (\<lambda>a. float_lt (Finite 0) (change_key h a)) data)"
    by (simp add: S_def G_def sorted_reverse_stable)
  have S5: "\<forall>i<length top_n. field h' (top_n ! i) ''gainer_rank'' = Some (PInt (int i + 1))"
    unfolding h'_def using S1 S2 lt top_n_def
    by (intro allI impI top_ranks [where S = S and data = data and n = "nat L"]) auto
  from run S1 S2 S3 S4 S5 S6 top_n_def
  show "\<exists>top_n h' S. get_top_gainers data L h = (Inr top_n, h')
            \<and> set S = {a \<in> set data. float_lt (Finite 0) (change_key h a)}
            \<and> distinct S
            \<and> (\<forall>a\<in>set S. change_key h a \<noteq> NaN)
            \<and> sorted (rev (map (change_key h) S))
            \<and> (\<forall>k. filter (\<lambda>a. change_key h a = k) S
                   = filter (\<lambda>a. change_key h a = k) (filter (\<lambda>a. float_lt (Finite 0) (change_key h a)) data))
            \<and> top_n = take (nat L) S
            \<and> (\<forall>i<length top_n. field h' (top_n ! i) ''gainer_rank'' = Some (PInt (int i + 1)))"
    by blast
next
  from ok have hc: "\<forall>a\<in>set data. has_change h a" and lt: "\<forall>a\<in>set data. a < length h"
    by blast+
  define G where "G = filter (\<lambda>a. float_lt (change_key h a) (Finite 0)) data"
  define S where "S = py_sorted (change_key h) G"
  define top_n where "top_n = take (nat L) S"
  define h' where "h' = enumerate_set ''loser_rank'' 1 top_n h"
  have run: "get_top_losers data L h = (Inr top_n, h')"
    using L by (simp add: get_top_losers_def filter_lt0 [OF hc] slice_to_nonneg Let_def
        G_def S_def top_n_def h'_def)
  have S1: "set S = {a \<in> set data. float_lt (change_key h a) (Finite 0)}" by (auto simp: S_def G_def py_sorted_def)
  have S2: "distinct S" using dist by (simp add: S_def G_def py_sorted_def)
  have S3: "sorted (map (change_key h) S)" by (simp add: S_def py_sorted_def)
  have S6: "\<forall>a\<in>set S. change_key h a \<noteq> NaN" unfolding S1 by (auto simp: float_lt_def)
  have S4: "\<forall>k. filter (\<lambda>a. change_key h a = k) S
                   = filter (\<lambda>a. change_key h a = k) (filter (\<lambda>a. float_lt (change_key h a) (Finite 0)) data)"
    by (simp add: S_def G_def py_sorted_def sort_key_stable)
  have S5: "\<forall>i<length top_n. field h' (top_n ! i) ''loser_rank'' = Some (PInt (int i + 1))"
    unfolding h'_def using S1 S2 lt top_n_def
    by (intro allI impI top_ranks [where S = S and data = data and n = "nat L"]) auto
  from run S1 S2 S3 S4 S5 S6 top_n_def
  show "\<exists>top_n h' S. get_top_losers data L h = (Inr top_n, h')
            \<and> set S = {a \<in> set data. float_lt (change_key h a) (Finite 0)}
            \<and> distinct S
            \<and> (\<forall>a\<in>set S. change_key h a \<noteq> NaN)
            \<and> sorted (map (change_key h) S)
            \<and> (\<forall>k. filter (\<lambda>a. change_key h a = k) S
                   = filter (\<lambda>a. change_key h a = k) (filter (\<lambda>a. float_lt (change_key h a) (Finite 0)) data))
            \<and> top_n = take (nat L) S
            \<and> (\<forall>i<length top_n. field h' (top_n ! i) ''loser_rank'' = Some (PInt (int i + 1)))"
    by blast
qed

lemma example_market_ok:
  "\<forall>a\<in>set [0, 1, 2, 3, 4, 5]. a < length example_market \<and> has_change example_market a"
  by (simp add: example_market_def has_change_def change_num_def dict_index_def)

lemma example_market_gainers:
  "fst (get_top_gainers [0, 1, 2, 3, 4, 5] 2 example_market) = Inr [0, 2]"
  by (simp add: get_top_gainers_def example_market_def change_gt0_def change_num_def
        dict_index_def change_key_def py_sorted_reverse_def py_slice_to_def Let_def)

lemma example_market_losers:
  "fst (get_top_losers [0, 1, 2, 3, 4, 5] 2 example_market) = Inr [1, 4]"
  by (simp add: get_top_losers_def example_market_def change_lt0_def change_num_def
        dict_index_def change_key_def py_sorted_def py_slice_to_def Let_def)

text \<open>
  The theorem at the six sample records with limit 2: the two records tied at 5 come in
  input order, as do the two tied at -3.
\<close>

theorem ranker_top_subsets_witness:
  "(\<exists>h'. get_top_gainers [0, 1, 2, 3, 4, 5] 2 example_market = (Inr [0, 2], h')
        \<and> field h' 0 ''gainer_rank'' = Some (PInt 1)
        \<and> field h' 2 ''gainer_rank'' = Some (PInt 2))
   \<and> (\<exists>h'. get_top_losers [0, 1, 2, 3, 4, 5] 2 example_market = (Inr [1, 4], h')
        \<and> field h' 1 ''loser_rank'' = Some (PInt 1)
        \<and> field h' 4 ''loser_rank'' = Some (PInt 2))"
proof -
  have d: "distinct [0, 1, 2, 3, 4, 5 :: nat]" by simp
  have L: "(0::int) \<le> 2" by simp
  note inst = ranker_top_subsets [OF d example_market_ok L]
  from inst [THEN conjunct1] obtain tg hg where
    rg: "get_top_gainers [0, 1, 2, 3, 4, 5] 2 example_market = (Inr tg, hg)"
    and kg: "\<forall>i<length tg. field hg (tg ! i) ''gainer_rank'' = Some (PInt (int i + 1))"
    by (elim exE conjE)
  from rg example_market_gainers have tg: "tg = [0, 2]" by simp
  from kg [rule_format, of 0] kg [rule_format, of 1] tg
  have g: "field hg 0 ''gainer_rank'' = Some (PInt 1)" "field hg 2 ''gainer_rank'' = Some (PInt 2)"
    by simp_all
  from inst [THEN conjunct2] obtain tl hl where
    rl: "get_top_losers [0, 1, 2, 3, 4, 5] 2 example_market = (Inr tl, hl)"
    and kl: "\<forall>i<length tl. field hl (tl ! i) ''loser_rank'' = Some (PInt (int i + 1))"
    by (elim exE conjE)
  from rl example_market_losers have tl: "tl = [1, 4]" by simp
  from kl [rule_format, of 0] kl [rule_format, of 1] tl
  have l: "field hl 1 ''loser_rank'' = Some (PInt 1)" "field hl 4 ''loser_rank'' = Some (PInt 2)"
    by simp_all
  from rg tg g rl tl l show ?thesis by blast
qed

section \<open>The Summarizer\<close>

lemma max_loop_snoc:
  "max_loop key best (xs @ [x]) =
     (if float_lt (key (max_loop key best xs)) (key x) then x else max_loop key best xs)"
  by (induction xs arbitrary: best) simp_all

lemma min_loop_snoc:
  "min_loop key best (xs @ [x]) =
     (if float_lt (key x) (key (min_loop key best xs)) then x else min_loop key best xs)"
  by (induction xs arbitrary: best) simp_all

lemma max_loop_mem: "max_loop key best xs \<in> set (best # xs)"
  by (induction xs arbitrary: best) auto

lemma min_loop_mem: "min_loop key best xs \<in> set (best # xs)"
  by (induction xs arbitrary: best) auto

lemma max_loop_split:
  assumes "\<forall>y\<in>set (best # xs). key y \<noteq> NaN"
  shows "\<exists>pre post. best # xs = pre @ max_loop key best xs # post
     \<and> (\<forall>y\<in>set pre. key y < key (max_loop key best xs))
     \<and> (\<forall>y\<in>set post. key y \<le> key (max_loop key best xs))"
  using assms
proof (induction xs rule: rev_induct)
  case Nil
  show ?case by (intro exI [of _ "[]"]) simp
next
  case (snoc x xs)
  from snoc.prems have nn: "\<forall>y\<in>set (best # xs). key y \<noteq> NaN" and nx: "key x \<noteq> NaN"
    by simp_all
  from snoc.IH [OF nn] obtain pre post where
    eq: "best # xs = pre @ max_loop key best xs # post"
    and pre: "\<forall>y\<in>set pre. key y < key (max_loop key best xs)"
    and post: "\<forall>y\<in>set post. key y \<le> key (max_loop key best xs)"
    by blast
  from max_loop_mem [of key best xs] nn have "key (max_loop key best xs) \<noteq> NaN" by blast
  with nx have lt: "float_lt (key (max_loop key best xs)) (key x)
      = (key (max_loop key best xs) < key x)"
    by (simp add: float_lt_iff)
  show ?case
  proof (cases "key (max_loop key best xs) < key x")
    case True
    have "set (best # xs) = set pre \<union> {max_loop key best xs} \<union> set post"
      by (subst eq) simp
    then have "\<forall>y\<in>set (best # xs). key y < key x"
      using True pre post by (auto simp del: set_simps)
    moreover have "best # xs @ [x] = (best # xs) @ x # []" by simp
    ultimately show ?thesis
      unfolding max_loop_snoc lt using True
      by (intro exI [of _ "best # xs"] exI [of _ "[]"]) simp
  next
    case False
    have "(best # xs) @ [x] = (pre @ max_loop key best xs # post) @ [x]"
      by (subst eq) (rule refl)
    then have "best # xs @ [x] = pre @ max_loop key best xs # (post @ [x])"
      by simp
    then show ?thesis
      unfolding max_loop_snoc lt using False pre post
      by (intro exI [of _ pre] exI [of _ "post @ [x]"]) auto
  qed
qed

lemma min_loop_split:
  assumes "\<forall>y\<in>set (best # xs). key y \<noteq> NaN"
  shows "\<exists>pre post. best # xs = pre @ min_loop key best xs # post
     \<and> (\<forall>y\<in>set pre. key (min_loop key best xs) < key y)
     \<and> (\<forall>y\<in>set post. key (min_loop key best xs) \<le> key y)"
  using assms
proof (induction xs rule: rev_induct)
  case Nil
  show ?case by (intro exI [of _ "[]"]) simp
next
  case (snoc x xs)
  from snoc.prems have nn: "\<forall>y\<in>set (best # xs). key y \<noteq> NaN" and nx: "key x \<noteq> NaN"
    by simp_all
  from snoc.IH [OF nn] obtain pre post where
    eq: "best # xs = pre @ min_loop key best xs # post"
    and pre: "\<forall>y\<in>set pre. key (min_loop key best xs) < key y"
    and post: "\<forall>y\<in>set post. key (min_loop key best xs) \<le> key y"
    by blast
  from min_loop_mem [of key best xs] nn have "key (min_loop key best xs) \<noteq> NaN" by blast
  with nx have lt: "float_lt (key x) (key (min_loop key best xs))
      = (key x < key (min_loop key best xs))"
    by (simp add: float_lt_iff)
  show ?case
  proof (cases "key x < key (min_loop key best xs)")
    case True
    have "set (best # xs) = set pre \<union> {min_loop key best xs} \<union> set post"
      by (subst eq) simp
    then have "\<forall>y\<in>set (best # xs). key x < key y"
      using True pre post by (auto simp del: set_simps)
    moreover have "best # xs @ [x] = (best # xs) @ x # []" by simp
    ultimately show ?thesis
      unfolding min_loop_snoc lt using True
      by (intro exI [of _ "best # xs"] exI [of _ "[]"]) simp
  next
    case False
    have "(best # xs) @ [x] = (pre @ min_loop key best xs # post) @ [x]"
      by (subst eq) (rule refl)
    then have "best # xs @ [x] = pre @ min_loop key best xs # (post @ [x])"
      by simp
    then show ?thesis
      unfolding min_loop_snoc lt using False pre post
      by (intro exI [of _ pre] exI [of _ "post @ [x]"]) auto
  qed
qed

lemma split_first:
  assumes "ys = pre @ r # post" and "\<forall>y\<in>set pre. lt y" and "\<forall>y\<in>set post. le y"
    and "le r" and "\<And>y. lt y \<Longrightarrow> le y"
  shows "\<exists>i<length ys. r = ys ! i \<and> (\<forall>j<length ys. le (ys ! j)) \<and> (\<forall>j<i. lt (ys ! j))"
proof (intro exI [of _ "length pre"] conjI allI impI)
  show "length pre < length ys" using assms(1) by simp
  show "r = ys ! length pre" using assms(1) by simp
next
  fix j assume "j < length ys"
  then have "ys ! j \<in> set ys" by simp
  then have "ys ! j \<in> set pre \<or> ys ! j = r \<or> ys ! j \<in> set post"
    unfolding assms(1) by auto
  then show "le (ys ! j)" using assms(2-5) by metis
next
  fix j assume "j < length pre"
  then have "ys ! j \<in> set pre" unfolding assms(1) by (simp add: nth_append)
  then show "lt (ys ! j)" using assms(2) by blast
qed

lemma max_loop_first:
  assumes nn: "\<forall>y\<in>set (best # xs). key y \<noteq> NaN"
  shows "\<exists>i<length (best # xs). max_loop key best xs = (best # xs) ! i
     \<and> (\<forall>j<length (best # xs). key ((best # xs) ! j) \<le> key (max_loop key best xs))
     \<and> (\<forall>j<i. key ((best # xs) ! j) < key (max_loop key best xs))"
proof -
  obtain pre post where
    eq: "best # xs = pre @ max_loop key best xs # post"
    and pre: "\<forall>y\<in>set pre. key y < key (max_loop key best xs)"
    and post: "\<forall>y\<in>set post. key y \<le> key (max_loop key best xs)"
    using max_loop_split [OF nn] by (elim exE conjE)
  show ?thesis
    by (rule split_first [where lt = "\<lambda>y. key y < key (max_loop key best xs)"
          and le = "\<lambda>y. key y \<le> key (max_loop key best xs)", OF eq pre post])
       (rule order_refl, erule less_imp_le)
qed

lemma min_loop_first:
  assumes nn: "\<forall>y\<in>set (best # xs). key y \<noteq> NaN"
  shows "\<exists>i<length (best # xs). min_loop key best xs = (best # xs) ! i
     \<and> (\<forall>j<length (best # xs). key (min_loop key best xs) \<le> key ((best # xs) ! j))
     \<and> (\<forall>j<i. key (min_loop key best xs) < key ((best # xs) ! j))"
proof -
  obtain pre post where
    eq: "best # xs = pre @ min_loop key best xs # post"
    and pre: "\<forall>y\<in>set pre. key (min_loop key best xs) < key y"
    and post: "\<forall>y\<in>set post. key (min_loop key best xs) \<le> key y"
    using min_loop_split [OF nn] by (elim exE conjE)
  show ?thesis
    by (rule split_first [where lt = "\<lambda>y. key (min_loop key best xs) < key y"
          and le = "\<lambda>y. key (min_loop key best xs) \<le> key y", OF eq pre post])
       (rule order_refl, erule less_imp_le)
qed

lemma three_way_count:
  "length (filter (\<lambda>a. float_lt (Finite 0) (f a)) xs)
     + length (filter (\<lambda>a. float_lt (f a) (Finite 0)) xs)
     + length (filter (\<lambda>a. f a = Finite 0) xs)
     + length (filter (\<lambda>a. f a = NaN) xs) = length xs"
proof (induction xs)
  case Nil
  show ?case by simp
next
  case (Cons x xs)
  show ?case
  proof (cases "f x = NaN")
    case True
    with Cons show ?thesis by simp
  next
    case False
    from float_three_way [OF this] Cons False show ?thesis by auto
  qed
qed

lemma summary_run:
  assumes "\<forall>a\<in>set (first # rest). has_change h a"
  shows "generate_market_summary (first # rest) h =
     (Inr [(''total_coins'', SInt (length (first # rest))),
           (''gainers_count'', SInt (length (filter (\<lambda>a. float_lt (Finite 0) (change_key h a)) (first # rest)))),
           (''losers_count'', SInt (length (filter (\<lambda>a. float_lt (change_key h a) (Finite 0)) (first # rest)))),
           (''neutral_count'', SInt (length (filter (\<lambda>a. change_key h a = Finite 0) (first # rest)))),
           (''gainers_percentage'',
              SFloat (of_nat (length (filter (\<lambda>a. float_lt (Finite 0) (change_key h a)) (first # rest)))
                       / of_nat (length (first # rest)) * 100)),
           (''losers_percentage'',
              SFloat (of_nat (length (filter (\<lambda>a. float_lt (change_key h a) (Finite 0)) (first # rest)))
                       / of_nat (length (first # rest)) * 100)),
           (''top_gainer'', SCoin (max_loop (change_key h) first rest)),
           (''top_loser'', SCoin (min_loop (change_key h) first rest))], h)"
  unfolding generate_market_summary_def list.case
    filter_gt0 [OF assms] filter_lt0 [OF assms] filter_eq0 [OF assms] sum.case Let_def
  by (rule refl)

lemma summary_lookup:
  fixes s :: "(string \<times> sumval) list"
  assumes "s = [(''total_coins'', a), (''gainers_count'', b), (''losers_count'', c),
      (''neutral_count'', d), (''gainers_percentage'', e), (''losers_percentage'', f),
      (''top_gainer'', g), (''top_loser'', l)]"
  shows "map_of s ''total_coins'' = Some a" "map_of s ''gainers_count'' = Some b"
    "map_of s ''losers_count'' = Some c" "map_of s ''neutral_count'' = Some d"
    "map_of s ''gainers_percentage'' = Some e" "map_of s ''losers_percentage'' = Some f"
    "map_of s ''top_gainer'' = Some g" "map_of s ''top_loser'' = Some l"
  unfolding assms by simp_all

lemma summary_fields:
  assumes "\<forall>a\<in>set (first # rest). has_change h a"
  shows "\<exists>s. generate_market_summary (first # rest) h = (Inr s, h)
     \<and> map_of s ''total_coins'' = Some (SInt (length (first # rest)))
     \<and> map_of s ''gainers_count''
          = Some (SInt (length (filter (\<lambda>a. float_lt (Finite 0) (change_key h a)) (first # rest))))
     \<and> map_of s ''losers_count''
          = Some (SInt (length (filter (\<lambda>a. float_lt (change_key h a) (Finite 0)) (first # rest))))
     \<and> map_of s ''neutral_count''
          = Some (SInt (length (filter (\<lambda>a. change_key h a = Finite 0) (first # rest))))
     \<and> map_of s ''top_gainer'' = Some (SCoin (max_loop (change_key h) first rest))
     \<and> map_of s ''top_loser'' = Some (SCoin (min_loop (change_key h) first rest))"
proof -
  obtain s where s: "s =
     [(''total_coins'', SInt (length (first # rest))),
      (''gainers_count'', SInt (length (filter (\<lambda>a. float_lt (Finite 0) (change_key h a)) (first # rest)))),
      (''losers_count'', SInt (length (filter (\<lambda>a. float_lt (change_key h a) (Finite 0)) (first # rest)))),
      (''neutral_count'', SInt (length (filter (\<lambda>a. change_key h a = Finite 0) (first # rest)))),
      (''gainers_percentage'',
         SFloat (of_nat (length (filter (\<lambda>a. float_lt (Finite 0) (change_key h a)) (first # rest)))
                  / of_nat (length (first # rest)) * 100)),
      (''losers_percentage'',
         SFloat (of_nat (length (filter (\<lambda>a. float_lt (change_key h a) (Finite 0)) (first # rest)))
                  / of_nat (length (first # rest)) * 100)),
      (''top_gainer'', SCoin (max_loop (change_key h) first rest)),
      (''top_loser'', SCoin (min_loop (change_key h) first rest))]"
    by blast
  have "generate_market_summary (first # rest) h = (Inr s, h)"
    unfolding s by (rule summary_run [OF assms])
  with summary_lookup [OF s] show ?thesis by blast
qed

text \<open>
  C4, as the code has it. For a non-empty list of records that each hold a number under
  \<open>price_change_24h\<close>, the Summarizer returns a summary whose \<open>total_coins\<close> is the
  length of the input and whose \<open>gainers_count\<close>, \<open>losers_count\<close> and
  \<open>neutral_count\<close> count the records with a change above, below and equal to zero.
  A record whose change is NaN is in none of the three: the counts add up to
  \<open>total_coins\<close> less the number of such records, hence to \<open>total_coins\<close> when no
  change is NaN.
\<close>

theorem summary_counts_partition:
  assumes "data \<noteq> []" and "\<forall>a\<in>set data. has_change h a"
  shows "\<exists>s g l n. generate_market_summary data h = (Inr s, h)
     \<and> map_of s ''total_coins'' = Some (SInt (length data))
     \<and> map_of s ''gainers_count'' = Some (SInt g)
     \<and> map_of s ''losers_count'' = Some (SInt l)
     \<and> map_of s ''neutral_count'' = Some (SInt n)
     \<and> g = length (filter (\<lambda>a. float_lt (Finite 0) (change_key h a)) data)
     \<and> l = length (filter (\<lambda>a. float_lt (change_key h a) (Finite 0)) data)
     \<and> n = length (filter (\<lambda>a. change_key h a = Finite 0) data)
     \<and> g + l + n + length (filter (\<lambda>a. change_key h a = NaN) data) = length data"
proof -
  from assms(1) obtain first rest where data: "data = first # rest" by (cases data) auto
  from summary_fields [OF assms(2) [unfolded data]] obtain s where
    "generate_market_summary data h = (Inr s, h)"
    "map_of s ''total_coins'' = Some (SInt (length data))"
    "map_of s ''gainers_count''
       = Some (SInt (length (filter (\<lambda>a. float_lt (Finite 0) (change_key h a)) data)))"
    "map_of s ''losers_count''
       = Some (SInt (length (filter (\<lambda>a. float_lt (change_key h a) (Finite 0)) data)))"
    "map_of s ''neutral_count''
       = Some (SInt (length (filter (\<lambda>a. change_key h a = Finite 0) data)))"
    unfolding data by (elim exE conjE)
  moreover note three_way_count [of "change_key h" data]
  ultimately show ?thesis by blast
qed

text \<open>
  The theorem at the six sample records.
\<close>

theorem summary_counts_partition_witness:
  "\<exists>s. generate_market_summary [0, 1, 2, 3, 4, 5] example_market = (Inr s, example_market)
     \<and> map_of s ''total_coins'' = Some (SInt 6)
     \<and> map_of s ''gainers_count'' = Some (SInt 3)
     \<and> map_of s ''losers_count'' = Some (SInt 2)
     \<and> map_of s ''neutral_count'' = Some (SInt 1)"
proof -
  have ne: "[0, 1, 2, 3, 4, 5 :: nat] \<noteq> []" by simp
  have ok: "\<forall>a\<in>set [0, 1, 2, 3, 4, 5]. has_change example_market a"
    using example_market_ok by blast
  have k: "map (change_key example_market) [0, 1, 2, 3, 4, 5] = [Finite 5, Finite (- 3), Finite 5, Finite 0, Finite (- 3), Finite 2]"
    by (simp add: change_key_def change_num_def dict_index_def example_market_def)
  from summary_counts_partition [OF ne ok] obtain s g l n where
    run: "generate_market_summary [0, 1, 2, 3, 4, 5] example_market = (Inr s, example_market)"
    and f: "map_of s ''total_coins'' = Some (SInt (length [0, 1, 2, 3, 4, 5 :: nat]))"
      "map_of s ''gainers_count'' = Some (SInt g)"
      "map_of s ''losers_count'' = Some (SInt l)"
      "map_of s ''neutral_count'' = Some (SInt n)"
    and g: "g = length (filter (\<lambda>a. float_lt (Finite 0) (change_key example_market a)) [0, 1, 2, 3, 4, 5])"
    and l: "l = length (filter (\<lambda>a. float_lt (change_key example_market a) (Finite 0)) [0, 1, 2, 3, 4, 5])"
    and n: "n = length (filter (\<lambda>a. change_key example_market a = Finite 0) [0, 1, 2, 3, 4, 5])"
    by (elim exE conjE)
  from k have "g = 3" "l = 2" "n = 1" unfolding g l n by simp_all
  with run f show ?thesis by (intro exI [of _ s]) simp
qed

text \<open>
  C5, as the code has it. For a non-empty list of records that each hold a number other
  than NaN under \<open>price_change_24h\<close>, \<open>top_gainer\<close> is a record of maximal change
  and no record before it in the input has a change as large; \<open>top_loser\<close> is a
  record of minimal change and no record before it has a change as small.
\<close>

theorem summary_top_first_extreme:
  assumes "data \<noteq> []" and "\<forall>a\<in>set data. has_change h a"
    and nn: "\<forall>a\<in>set data. change_key h a \<noteq> NaN"
  shows "\<exists>s g l i j. generate_market_summary data h = (Inr s, h)
     \<and> map_of s ''top_gainer'' = Some (SCoin g)
     \<and> map_of s ''top_loser'' = Some (SCoin l)
     \<and> i < length data \<and> g = data ! i
     \<and> (\<forall>m<length data. change_key h (data ! m) \<le> change_key h g)
     \<and> (\<forall>m<i. change_key h (data ! m) < change_key h g)
     \<and> j < length data \<and> l = data ! j
     \<and> (\<forall>m<length data. change_key h l \<le> change_key h (data ! m))
     \<and> (\<forall>m<j. change_key h l < change_key h (data ! m))"
proof -
  from assms(1) obtain first rest where data: "data = first # rest" by (cases data) auto
  from summary_fields [OF assms(2) [unfolded data]] obtain s where
    run: "generate_market_summary (first # rest) h = (Inr s, h)"
    and tg: "map_of s ''top_gainer'' = Some (SCoin (max_loop (change_key h) first rest))"
    and tl: "map_of s ''top_loser'' = Some (SCoin (min_loop (change_key h) first rest))"
    by (elim exE conjE)
  from max_loop_first [OF nn [unfolded data]] obtain i where
    i: "i < length (first # rest)" "max_loop (change_key h) first rest = (first # rest) ! i"
      "\<forall>m<length (first # rest). change_key h ((first # rest) ! m)
          \<le> change_key h (max_loop (change_key h) first rest)"
      "\<forall>m<i. change_key h ((first # rest) ! m) < change_key h (max_loop (change_key h) first rest)"
    by (elim exE conjE)
  from min_loop_first [OF nn [unfolded data]] obtain j where
    j: "j < length (first # rest)" "min_loop (change_key h) first rest = (first # rest) ! j"
      "\<forall>m<length (first # rest). change_key h (min_loop (change_key h) first rest)
          \<le> change_key h ((first # rest) ! m)"
      "\<forall>m<j. change_key h (min_loop (change_key h) first rest) < change_key h ((first # rest) ! m)"
    by (elim exE conjE)
  show ?thesis
    unfolding data
    by (intro exI [of _ s] exI [of _ "max_loop (change_key h) first rest"]
        exI [of _ "min_loop (change_key h) first rest"] exI [of _ i] exI [of _ j]
        conjI run tg tl i j)
qed

text \<open>
  The theorem at the six sample records: of the two records tied at 5 the first is the
  top gainer, of the two tied at -3 the first is the top loser.
\<close>

theorem summary_top_first_extreme_witness:
  "summary_field (generate_market_summary [0, 1, 2, 3, 4, 5] example_market) ''top_gainer''
      = Some (SCoin 0)
   \<and> summary_field (generate_market_summary [0, 1, 2, 3, 4, 5] example_market) ''top_loser''
      = Some (SCoin 1)"
proof -
  have ne: "[0, 1, 2, 3, 4, 5 :: nat] \<noteq> []" by simp
  have ok: "\<forall>a\<in>set [0, 1, 2, 3, 4, 5]. has_change example_market a"
    using example_market_ok by blast
  have k: "map (change_key example_market) [0, 1, 2, 3, 4, 5] = [Finite 5, Finite (- 3), Finite 5, Finite 0, Finite (- 3), Finite 2]"
    by (simp add: change_key_def change_num_def dict_index_def example_market_def)
  have nn: "\<forall>a\<in>set [0, 1, 2, 3, 4, 5]. change_key example_market a \<noteq> NaN"
    using k by simp
  from summary_top_first_extreme [OF ne ok nn] obtain s g l i j where
    run: "generate_market_summary [0, 1, 2, 3, 4, 5] example_market = (Inr s, example_market)"
    and tg: "map_of s ''top_gainer'' = Some (SCoin g)"
    and tl: "map_of s ''top_loser'' = Some (SCoin l)"
    and i: "i < length [0, 1, 2, 3, 4, 5 :: nat]" "g = [0, 1, 2, 3, 4, 5] ! i"
    and imax: "\<forall>m<length [0, 1, 2, 3, 4, 5 :: nat].
        change_key example_market ([0, 1, 2, 3, 4, 5] ! m) \<le> change_key example_market g"
    and ifirst: "\<forall>m<i. change_key example_market ([0, 1, 2, 3, 4, 5] ! m) < change_key example_market g"
    and j: "j < length [0, 1, 2, 3, 4, 5 :: nat]" "l = [0, 1, 2, 3, 4, 5] ! j"
    and jmin: "\<forall>m<length [0, 1, 2, 3, 4, 5 :: nat].
        change_key example_market l \<le> change_key example_market ([0, 1, 2, 3, 4, 5] ! m)"
    and jfirst: "\<forall>m<j. change_key example_market l < change_key example_market ([0, 1, 2, 3, 4, 5] ! m)"
    by (elim exE conjE)
  have ck: "change_key example_market 0 = Finite 5" "change_key example_market 1 = Finite (- 3)"
    "change_key example_market 2 = Finite 5" "change_key example_market 3 = Finite 0"
    "change_key example_market 4 = Finite (- 3)" "change_key example_market 5 = Finite 2"
    "change_key example_market (Suc 0) = Finite (- 3)"
    using k by simp_all
  have "i = 0"
  proof (rule ccontr)
    assume "i \<noteq> 0"
    then have "0 < i" by simp
    from ifirst [rule_format, OF this] have lt: "Finite 5 < change_key example_market g"
      by (simp add: ck)
    from i have "g \<in> {0, 1, 2, 3, 4, 5}"
      by (auto simp: less_Suc_eq numeral_eq_Suc)
    with lt show False by (auto simp: ck)
  qed
  with i have g: "g = 0" by simp
  have "j = 1"
  proof -
    from jmin [rule_format, of 1] have le: "change_key example_market l \<le> Finite (- 3)"
      by (simp add: ck)
    from j have "j \<in> {0, 1, 2, 3, 4, 5}" by (auto simp: less_Suc_eq numeral_eq_Suc)
    then consider "j = 0" | "j = 1" | "j = 2" | "j = 3" | "j = 4" | "j = 5" by auto
    then show ?thesis
    proof cases
      case 2 then show ?thesis .
    next
      case 5
      with jfirst [rule_format, of 1] j(2) show ?thesis by (simp add: ck)
    qed (use le j(2) in \<open>simp_all add: ck\<close>)
  qed
  with j have l: "l = 1" by simp
  from run tg tl g l show ?thesis by (simp add: summary_field_def)
qed

text \<open>
  C7, as the code has it. On an empty input the Summarizer returns the empty dictionary
  and leaves the store as it was; no exception is raised.
\<close>

theorem summary_empty_input: "generate_market_summary [] h = (Inr [], h)"
  by (simp add: generate_market_summary_def)

text \<open>
  C7 as stated fails: the dictionary returned for an empty input has no
  \<open>gainers_percentage\<close> and no \<open>losers_percentage\<close> entry, so neither is 0.
\<close>

theorem summary_empty_no_percentages:
  "summary_field (generate_market_summary [] []) ''gainers_percentage'' = None
   \<and> summary_field (generate_market_summary [] []) ''losers_percentage'' = None"
  by (simp add: generate_market_summary_def summary_field_def)

lemma enumerate_set_frame_all:
  "length (enumerate_set k i as h) = length h
   \<and> (\<forall>a. a \<notin> set as \<longrightarrow> enumerate_set k i as h ! a = h ! a)
   \<and> (\<forall>a k'. k' \<noteq> k \<longrightarrow> field (enumerate_set k i as h) a k' = field h a k')"
  by (simp add: enumerate_set_other enumerate_set_frame)

text \<open>
  C8, as the code has it. The Ranker assigns \<open>gainer_rank\<close> or \<open>loser_rank\<close> in the
  records it returns, which are records of the normalized sequence. It changes nothing
  else: the store keeps its size, a record that is not returned is unchanged, and in
  every record every other key keeps its value. When the Ranker raises, and whenever the
  Summarizer runs, the store is unchanged.
\<close>

theorem ranker_summarizer_frame:
  "(get_top_gainers data L h = (Inr tgs, hgs) \<longrightarrow>
       length hgs = length h
     \<and> (\<forall>a. a \<notin> set tgs \<longrightarrow> hgs ! a = h ! a)
     \<and> (\<forall>a k. k \<noteq> ''gainer_rank'' \<longrightarrow> field hgs a k = field h a k))
   \<and> (get_top_losers data L h = (Inr tls, hls) \<longrightarrow>
       length hls = length h
     \<and> (\<forall>a. a \<notin> set tls \<longrightarrow> hls ! a = h ! a)
     \<and> (\<forall>a k. k \<noteq> ''loser_rank'' \<longrightarrow> field hls a k = field h a k))
   \<and> (get_top_gainers data L h = (Inl e, hgs) \<longrightarrow> hgs = h)
   \<and> (get_top_losers data L h = (Inl e, hls) \<longrightarrow> hls = h)
   \<and> snd (generate_market_summary data h) = h"
proof (intro conjI impI)
  assume "get_top_gainers data L h = (Inr tgs, hgs)"
  then have "hgs = enumerate_set ''gainer_rank'' 1 tgs h"
    by (auto simp: get_top_gainers_def Let_def split: sum.splits)
  then show "length hgs = length h"
    and "\<forall>a. a \<notin> set tgs \<longrightarrow> hgs ! a = h ! a"
    and "\<forall>a k. k \<noteq> ''gainer_rank'' \<longrightarrow> field hgs a k = field h a k"
    using enumerate_set_frame_all [of "''gainer_rank''" 1 tgs h] by simp_all
next
  assume "get_top_losers data L h = (Inr tls, hls)"
  then have "hls = enumerate_set ''loser_rank'' 1 tls h"
    by (auto simp: get_top_losers_def Let_def split: sum.splits)
  then show "length hls = length h"
    and "\<forall>a. a \<notin> set tls \<longrightarrow> hls ! a = h ! a"
    and "\<forall>a k. k \<noteq> ''loser_rank'' \<longrightarrow> field hls a k = field h a k"
    using enumerate_set_frame_all [of "''loser_rank''" 1 tls h] by simp_all
next
  assume "get_top_gainers data L h = (Inl e, hgs)"
  then show "hgs = h" by (auto simp: get_top_gainers_def Let_def split: sum.splits)
next
  assume "get_top_losers data L h = (Inl e, hls)"
  then show "hls = h" by (auto simp: get_top_losers_def Let_def split: sum.splits)
next
  show "snd (generate_market_summary data h) = h"
    by (auto simp: generate_market_summary_def Let_def split: list.splits sum.splits)
qed

text \<open>
  The theorem at the six sample records.
\<close>

theorem ranker_summarizer_frame_witness:
  "length (snd (get_top_gainers [0, 1, 2, 3, 4, 5] 2 example_market)) = length example_market
   \<and> snd (get_top_gainers [0, 1, 2, 3, 4, 5] 2 example_market) ! 1 = example_market ! 1
   \<and> field (snd (get_top_gainers [0, 1, 2, 3, 4, 5] 2 example_market)) 0 ''price_change_24h''
        = field example_market 0 ''price_change_24h''
   \<and> snd (get_top_losers [0, 1, 2, 3, 4, 5] 2 example_market) ! 0 = example_market ! 0
   \<and> field (snd (get_top_losers [0, 1, 2, 3, 4, 5] 2 example_market)) 1 ''number''
        = field example_market 1 ''number''
   \<and> snd (generate_market_summary [0, 1, 2, 3, 4, 5] example_market) = example_market"
proof -
  have g: "get_top_gainers [0, 1, 2, 3, 4, 5] 2 example_market
      = (Inr [0, 2], snd (get_top_gainers [0, 1, 2, 3, 4, 5] 2 example_market))"
    using example_market_gainers by (simp add: prod_eq_iff)
  have l: "get_top_losers [0, 1, 2, 3, 4, 5] 2 example_market
      = (Inr [1, 4], snd (get_top_losers [0, 1, 2, 3, 4, 5] 2 example_market))"
    using example_market_losers by (simp add: prod_eq_iff)
  note fr = ranker_summarizer_frame [of "[0, 1, 2, 3, 4, 5]" 2 example_market
      "[0, 2]" "snd (get_top_gainers [0, 1, 2, 3, 4, 5] 2 example_market)"
      "[1, 4]" "snd (get_top_losers [0, 1, 2, 3, 4, 5] 2 example_market)"]
  from fr g l show ?thesis by simp
qed

lemma example_enhanced_eq: "example_enhanced = 
   [[(''id'', PStr ''btc''), (''symbol'', PStr ''btc''), (''market_cap_rank'', PInt 1),
    (''price_change_percentage_24h'', PFloat (Finite (26 / 5))), (''date'', PStr ''04-11-2026''),
    (''price_change_24h'', PFloat (Finite (26 / 5))), (''change_symbol'', PStr ''UP'')],
   [(''id'', PStr ''eth''), (''symbol'', PStr ''eth''), (''market_cap_rank'', PInt 2),
    (''price_change_percentage_24h'', PNone), (''date'', PStr ''04-11-2026''),
    (''price_change_24h'', PFloat (Finite 0)), (''change_symbol'', PStr ''DOWN'')],
   [(''id'', PStr ''xrp''), (''symbol'', PStr ''xrp''), (''market_cap_rank'', PNone),
    (''price_change_percentage_24h'', PFloat (Finite (- 31 / 10))), (''date'', PStr ''04-11-2026''),
    (''price_change_24h'', PFloat (Finite (- 31 / 10))), (''change_symbol'', PStr ''DOWN'')]]"
  by (simp add: example_enhanced_def add_enhanced_columns_def example_raw_def Let_def
       dict_get_def enhanced_value_def heap_set_def dict_set_def)

lemma str_upper_samples:
  "str_upper ''btc'' = ''BTC''" "str_upper ''eth'' = ''ETH''" "str_upper ''xrp'' = ''XRP''"
  by code_simp+

lemma example_pipeline_eq:
  "process_crypto_data [0, 1, 2] example_enhanced = (Inr [3, 4, 5], example_normalized)"
  "example_normalized ! 3 =
     [(''id'', PStr ''btc''), (''rank'', PInt 1), (''name'', PStr []),
      (''symbol'', PStr ''BTC''), (''current_price'', PNone),
      (''price_change_24h'', PFloat (Finite (26 / 5))), (''change_symbol'', PStr ''UP''),
      (''market_cap'', PNone), (''volume_24h'', PNone), (''ath'', PNone),
      (''image'', PStr []), (''date'', PStr ''04-11-2026''),
      (''last_updated'', PStr []), (''number'', PInt 1)]"
  "example_normalized ! 4 =
     [(''id'', PStr ''eth''), (''rank'', PInt 2), (''name'', PStr []),
      (''symbol'', PStr ''ETH''), (''current_price'', PNone),
      (''price_change_24h'', PFloat (Finite 0)), (''change_symbol'', PStr ''DOWN''),
      (''market_cap'', PNone), (''volume_24h'', PNone), (''ath'', PNone),
      (''image'', PStr []), (''date'', PStr ''04-11-2026''),
      (''last_updated'', PStr []), (''number'', PInt 2)]"
  "example_normalized ! 5 =
     [(''id'', PStr ''xrp''), (''rank'', PNone), (''name'', PStr []),
      (''symbol'', PStr ''XRP''), (''current_price'', PNone),
      (''price_change_24h'', PFloat (Finite (- 31 / 10))), (''change_symbol'', PStr ''DOWN''),
      (''market_cap'', PNone), (''volume_24h'', PNone), (''ath'', PNone),
      (''image'', PStr []), (''date'', PStr ''04-11-2026''),
      (''last_updated'', PStr []), (''number'', PInt 3)]"
  "length example_normalized = 6"
  by (simp_all add: example_normalized_def example_enhanced_eq process_crypto_data_def
       processed_record_def dict_get_def str_upper_samples py_sort_def rank_key_def
       heap_set_def dict_set_def Let_def upt_rec nth_append)

text \<open>
  C8 as stated fails: after the Enhancer and the Normalizer have run on the sample batch,
  the record at address 3 has no \<open>gainer_rank\<close>; after \<^verbatim>\<open>get_top_gainers\<close> it has one.
\<close>

theorem ranker_adds_rank_field:
  "fst (process_crypto_data [0, 1, 2] example_enhanced) = Inr [3, 4, 5]
   \<and> snd (process_crypto_data [0, 1, 2] example_enhanced) = example_normalized
   \<and> field example_normalized 3 ''gainer_rank'' = None
   \<and> field (snd (get_top_gainers [3, 4, 5] 10 example_normalized)) 3 ''gainer_rank''
        = Some (PInt 1)"
proof -
  have "field example_normalized 3 ''gainer_rank'' = None"
    by (simp add: example_pipeline_eq field_def)
  moreover have "field (snd (get_top_gainers [3, 4, 5] 10 example_normalized)) 3 ''gainer_rank''
        = Some (PInt 1)"
    by (simp add: example_pipeline_eq field_def get_top_gainers_def change_gt0_def
        change_num_def dict_index_def change_key_def py_sorted_reverse_def py_slice_to_def
        Let_def heap_set_def dict_set_def)
  ultimately show ?thesis unfolding example_pipeline_eq(1) by simp
qed

lemma example_nan_market_summary:
  "generate_market_summary [0, 1, 2] example_nan_market =
     (Inr [(''total_coins'', SInt 3), (''gainers_count'', SInt 2),
           (''losers_count'', SInt 0), (''neutral_count'', SInt 0),
           (''gainers_percentage'', SFloat (200 / 3)),
           (''losers_percentage'', SFloat 0),
           (''top_gainer'', SCoin 0), (''top_loser'', SCoin 0)], example_nan_market)"
  by (simp add: generate_market_summary_def example_nan_market_def change_gt0_def change_lt0_def
        change_eq0_def change_num_def dict_index_def change_key_def Let_def)

text \<open>
  C4 as stated fails: of three records with the changes NaN, 5 and 3 the Summarizer
  counts two gainers, no loser and no neutral record.
\<close>

theorem summary_counts_miss_nan:
  "summary_field (generate_market_summary [0, 1, 2] example_nan_market) ''total_coins''
      = Some (SInt 3)
   \<and> summary_field (generate_market_summary [0, 1, 2] example_nan_market) ''gainers_count''
      = Some (SInt 2)
   \<and> summary_field (generate_market_summary [0, 1, 2] example_nan_market) ''losers_count''
      = Some (SInt 0)
   \<and> summary_field (generate_market_summary [0, 1, 2] example_nan_market) ''neutral_count''
      = Some (SInt 0)"
  unfolding example_nan_market_summary by (simp add: summary_field_def)

text \<open>
  C5 as stated fails: of three records with the changes NaN, 5 and 3 the first is both
  \<open>top_gainer\<close> and \<open>top_loser\<close>, because no comparison with NaN is true.
\<close>

theorem summary_top_is_leading_nan:
  "summary_field (generate_market_summary [0, 1, 2] example_nan_market) ''top_gainer''
      = Some (SCoin 0)
   \<and> summary_field (generate_market_summary [0, 1, 2] example_nan_market) ''top_loser''
      = Some (SCoin 0)
   \<and> change_key example_nan_market 0 = NaN
   \<and> change_key example_nan_market 1 = Finite 5
   \<and> change_key example_nan_market 2 = Finite 3"
  unfolding example_nan_market_summary
  by (simp add: summary_field_def change_key_def change_num_def dict_index_def
        example_nan_market_def)

section \<open>The Enhancer on a percentage that is not a number\<close>

lemma enhance_loop_append:
  "enhance_loop fb today (xs @ ys) h =
     (case enhance_loop fb today xs h of
        (None, h1) \<Rightarrow> enhance_loop fb today ys h1
      | (Some e, h1) \<Rightarrow> (Some e, h1))"
  by (induction xs arbitrary: h) (simp_all add: Let_def split: sum.splits)

text \<open>
  C6, as the code has it. When a record's percentage is a non-empty string that
  \<^verbatim>\<open>float\<close> rejects, and every record before it in the batch converts, the Enhancer
  raises \<^verbatim>\<open>ValueError\<close> with that string and returns no batch. The store it leaves
  behind is the one in which the records before the offending one are enhanced and the
  offending record has received its date.
\<close>

theorem enhancer_unparseable_string:
  assumes before: "\<forall>c\<in>set before. \<exists>f. enhanced_value fb
        (dict_get (h ! c) ''price_change_percentage_24h'' PNone) = Inr f"
    and bad: "dict_get (h ! coin) ''price_change_percentage_24h'' PNone = PStr s"
      "s \<noteq> []" "str_to_float fb s = None"
  shows "\<exists>h1. add_enhanced_columns fb today before h = (Inr before, h1)
     \<and> add_enhanced_columns fb today (before @ coin # rest) h
         = (Inl (ValueError s), heap_set h1 coin ''date'' (PStr today))"
proof -
  from before have "fst (enhance_loop fb today before h) = None"
    by (rule enhance_loop_succeeds)
  then obtain h1 where run: "enhance_loop fb today before h = (None, h1)"
    by (cases "enhance_loop fb today before h") auto
  have "field h1 coin ''price_change_percentage_24h''
      = field h coin ''price_change_percentage_24h''"
    by (rule enhance_loop_frame [OF run]) simp
  then have "dict_get (h1 ! coin) ''price_change_percentage_24h'' PNone = PStr s"
    using bad(1) by (simp add: dict_get_field)
  moreover have "enhanced_value fb (PStr s) = Inl (ValueError s)"
    using bad(2,3) by (simp add: enhanced_value_def)
  ultimately have "enhance_loop fb today (coin # rest) h1
      = (Some (ValueError s), heap_set h1 coin ''date'' (PStr today))"
    by (simp add: Let_def)
  then show ?thesis
    by (simp add: add_enhanced_columns_def enhance_loop_append run)
qed

lemma example_malformed_run:
  "add_enhanced_columns example_float ''04-11-2026'' [0, 1, 2] example_malformed =
     (Inl (ValueError ''abc''),
      [[(''id'', PStr ''btc''), (''price_change_percentage_24h'', PFloat (Finite (26 / 5))),
        (''date'', PStr ''04-11-2026''), (''price_change_24h'', PFloat (Finite (26 / 5))),
        (''change_symbol'', PStr ''UP'')],
       [(''id'', PStr ''eth''), (''price_change_percentage_24h'', PStr ''abc''),
        (''date'', PStr ''04-11-2026'')],
       [(''id'', PStr ''xrp''), (''price_change_percentage_24h'', PFloat (Finite (- 31 / 10)))]])"
  by (simp add: add_enhanced_columns_def example_malformed_def example_float_def Let_def
       dict_get_def enhanced_value_def heap_set_def dict_set_def)

text \<open>
  The theorem at the batch whose second record has the percentage \<^verbatim>\<open>'abc'\<close>.
\<close>

theorem enhancer_unparseable_string_witness:
  "add_enhanced_columns example_float ''04-11-2026'' ([0] @ 1 # [2]) example_malformed
     = (Inl (ValueError ''abc''),
        heap_set (snd (add_enhanced_columns example_float ''04-11-2026'' [0] example_malformed))
          1 ''date'' (PStr ''04-11-2026''))"
proof -
  have before: "\<forall>c\<in>set [0]. \<exists>f. enhanced_value example_float
        (dict_get (example_malformed ! c) ''price_change_percentage_24h'' PNone) = Inr f"
    by (intro ballI exI [of _ "Finite (26 / 5)"])
       (simp add: example_malformed_def dict_get_def enhanced_value_def)
  have bad: "dict_get (example_malformed ! 1) ''price_change_percentage_24h'' PNone = PStr ''abc''"
    "''abc'' \<noteq> []" "str_to_float example_float ''abc'' = None"
    by (simp_all add: example_malformed_def dict_get_def example_float_def)
  from enhancer_unparseable_string [OF before bad, of "''04-11-2026''" "[2]"]
  show ?thesis by auto
qed

text \<open>
  C6 as stated fails: on that batch the exception is \<^verbatim>\<open>ValueError\<close> with the text
  \<^verbatim>\<open>abc\<close>, which names neither the record \<^verbatim>\<open>eth\<close> nor the field, and the first record,
  which had no \<open>price_change_24h\<close>, has one afterwards.
\<close>

theorem enhancer_raises_value_error:
  "fst (add_enhanced_columns example_float ''04-11-2026'' [0, 1, 2] example_malformed)
     = Inl (ValueError ''abc'')
   \<and> field example_malformed 0 ''price_change_24h'' = None
   \<and> field (snd (add_enhanced_columns example_float ''04-11-2026'' [0, 1, 2] example_malformed))
        0 ''price_change_24h'' = Some (PFloat (Finite (26 / 5)))
   \<and> field (snd (add_enhanced_columns example_float ''04-11-2026'' [0, 1, 2] example_malformed))
        1 ''date'' = Some (PStr ''04-11-2026'')"
  unfolding example_malformed_run by (simp add: field_def example_malformed_def)

text \<open>
  The empty string is falsy: it is not passed to \<^verbatim>\<open>float\<close> and the record gets 0.0.
\<close>

lemma enhancer_empty_string_defaults:
  "add_enhanced_columns fb today [0] example_empty_string =
     (Inr [0],
      [[(''id'', PStr ''eth''), (''price_change_percentage_24h'', PStr []),
        (''date'', PStr today), (''price_change_24h'', PFloat (Finite 0)),
        (''change_symbol'', PStr ''DOWN'')]])"
  by (simp add: add_enhanced_columns_def example_empty_string_def Let_def
       dict_get_def enhanced_value_def heap_set_def dict_set_def)

section \<open>The Normalizer\<close>

lemma build_processed_Inr:
  "build_processed data h = Inr ds \<Longrightarrow>
   length ds = length data \<and> (\<forall>i<length data. processed_record (h ! (data ! i)) = Inr (ds ! i))"
proof (induction data arbitrary: ds)
  case Nil
  then show ?case by simp
next
  case (Cons coin rest)
  from Cons.prems obtain d ds' where
    d: "processed_record (h ! coin) = Inr d" and ds': "build_processed rest h = Inr ds'"
    and ds: "ds = d # ds'"
    by (auto split: sum.splits)
  from Cons.IH [OF ds'] d ds show ?case
    by (auto simp: nth_Cons split: nat.splits)
qed

lemma build_processed_total:
  "\<forall>c\<in>set data. \<exists>d. processed_record (h ! c) = Inr d \<Longrightarrow> \<exists>ds. build_processed data h = Inr ds"
  by (induction data) auto

lemma build_processed_cong:
  "\<forall>c\<in>set data. processed_record (h ! c) = processed_record (h2 ! c) \<Longrightarrow>
   build_processed data h = build_processed data h2"
proof (induction data)
  case Nil
  show ?case by simp
next
  case (Cons coin rest)
  then have "build_processed rest h = build_processed rest h2"
    and "processed_record (h ! coin) = processed_record (h2 ! coin)" by simp_all
  then show ?case by (simp only: build_processed.simps)
qed

lemma rank_key_field: "map_of d ''rank'' = map_of d' ''rank'' \<Longrightarrow> rank_key d = rank_key d'"
  by (simp add: rank_key_def dict_get_def)

lemma rank_key_number [simp]: "rank_key (dict_set d ''number'' v) = rank_key d"
  by (rule rank_key_field) (simp add: field_dict_set)

lemma py_sort_Inr: "py_sort key xs = Inr ys \<Longrightarrow> ys = sort_key key xs"
  by (auto simp: py_sort_def split: if_splits)

lemma process_Inr:
  assumes "process_crypto_data data h = (Inr out, h')"
  obtains ds where "build_processed data h = Inr ds"
    and "py_sort (\<lambda>a. rank_key ((h @ ds) ! a)) [length h..<length h + length ds] = Inr out"
    and "h' = enumerate_set ''number'' 1 out (h @ ds)"
  using assms by (auto simp: process_crypto_data_def Let_def split: sum.splits)

text \<open>
  What the Normalizer returns, whenever it returns: a fresh record for each input record,
  in the store after the old ones, which it leaves as they were; the list of the fresh
  addresses sorted by the sort key, records of equal key in input order; and \<open>number\<close>
  equal to the position in that list plus one.
\<close>

lemma normalizer_facts:
  assumes run: "process_crypto_data data h = (Inr out, h')"
  shows "length h' = length h + length data"
    and "distinct out" and "set out = {length h..<length h + length data}"
    and "length out = length data"
    and "\<forall>a<length h. h' ! a = h ! a"
    and "\<forall>m<length data. \<exists>d. processed_record (h ! (data ! m)) = Inr d \<and>
          (\<forall>i<length out. out ! i = length h + m \<longrightarrow>
             h' ! (length h + m) = dict_set d ''number'' (PInt (int i + 1)))"
    and "sorted (map (\<lambda>a. rank_key (h' ! a)) out)"
    and "\<forall>k. filter (\<lambda>a. rank_key (h' ! a) = k) out
           = filter (\<lambda>a. rank_key (h' ! a) = k) [length h..<length h + length data]"
    and "\<forall>i<length out. field h' (out ! i) ''number'' = Some (PInt (int i + 1))"
proof -
  from run obtain ds where
    ds: "build_processed data h = Inr ds"
    and srt: "py_sort (\<lambda>a. rank_key ((h @ ds) ! a)) [length h..<length h + length ds] = Inr out"
    and h': "h' = enumerate_set ''number'' 1 out (h @ ds)"
    by (rule process_Inr)
  let ?key = "\<lambda>a. rank_key ((h @ ds) ! a)"
  let ?new = "[length h..<length h + length data]"
  from build_processed_Inr [OF ds] have len: "length ds = length data"
    and rec: "\<forall>i<length data. processed_record (h ! (data ! i)) = Inr (ds ! i)" by blast+
  from py_sort_Inr [OF srt] len have out: "out = sort_key ?key ?new" by simp
  show L: "length h' = length h + length data" by (simp add: h' len)
  show D: "distinct out" by (simp add: out)
  show S: "set out = {length h..<length h + length data}" by (simp add: out)
  show "length out = length data" by (simp add: out)
  show "\<forall>a<length h. h' ! a = h ! a"
  proof (intro allI impI)
    fix a assume a: "a < length h"
    then have "a \<notin> set out" using S by simp
    then show "h' ! a = h ! a" using a by (simp add: h' enumerate_set_other nth_append)
  qed
  have nth: "h' ! (out ! i) = dict_set ((h @ ds) ! (out ! i)) ''number'' (PInt (int i + 1))"
    if i: "i < length out" for i
  proof -
    from i S have "out ! i < length (h @ ds)" using nth_mem [OF i] by (simp add: len)
    from enumerate_set_nth [OF D i this, of "''number''" 1] show ?thesis
      by (simp add: h' add.commute)
  qed
  show "\<forall>m<length data. \<exists>d. processed_record (h ! (data ! m)) = Inr d \<and>
          (\<forall>i<length out. out ! i = length h + m \<longrightarrow>
             h' ! (length h + m) = dict_set d ''number'' (PInt (int i + 1)))"
  proof (intro allI impI)
    fix m assume m: "m < length data"
    have "\<forall>i<length out. out ! i = length h + m \<longrightarrow>
             h' ! (length h + m) = dict_set (ds ! m) ''number'' (PInt (int i + 1))"
    proof (intro allI impI)
      fix i assume i: "i < length out" and eq: "out ! i = length h + m"
      from nth [OF i] show "h' ! (length h + m) = dict_set (ds ! m) ''number'' (PInt (int i + 1))"
        by (simp add: eq nth_append)
    qed
    with rec m show "\<exists>d. processed_record (h ! (data ! m)) = Inr d \<and>
          (\<forall>i<length out. out ! i = length h + m \<longrightarrow>
             h' ! (length h + m) = dict_set d ''number'' (PInt (int i + 1)))"
      by blast
  qed
  have key: "rank_key (h' ! a) = ?key a" if "a \<in> set out" for a
  proof -
    from that obtain i where i: "i < length out" and a: "a = out ! i"
      by (auto simp: in_set_conv_nth)
    from nth [OF i] show ?thesis by (simp add: a)
  qed
  have eqm: "map (\<lambda>a. rank_key (h' ! a)) out = map ?key out"
    using key by (intro map_cong refl) simp
  have "sorted (map ?key (sort_key ?key ?new))" by (rule sorted_sort_key)
  then have "sorted (map ?key out)" unfolding out .
  then show "sorted (map (\<lambda>a. rank_key (h' ! a)) out)" unfolding eqm .
  show "\<forall>k. filter (\<lambda>a. rank_key (h' ! a) = k) out
           = filter (\<lambda>a. rank_key (h' ! a) = k) [length h..<length h + length data]"
  proof
    fix k
    have "filter (\<lambda>a. rank_key (h' ! a) = k) out = filter (\<lambda>a. ?key a = k) out"
      using key by (intro filter_cong refl) simp
    also have "\<dots> = filter (\<lambda>a. ?key a = k) ?new"
      by (simp add: out sort_key_stable)
    also have "\<dots> = filter (\<lambda>a. rank_key (h' ! a) = k) ?new"
      using key S by (intro filter_cong refl) simp
    finally show "filter (\<lambda>a. rank_key (h' ! a) = k) out
           = filter (\<lambda>a. rank_key (h' ! a) = k) [length h..<length h + length data]" .
  qed
  show "\<forall>i<length out. field h' (out ! i) ''number'' = Some (PInt (int i + 1))"
    using nth by (simp add: field_def field_dict_set)
qed

lemma insort_key_cong_on:
  "f x = g x \<Longrightarrow> \<forall>y\<in>set ys. f y = g y \<Longrightarrow> insort_key f x ys = insort_key g x ys"
  by (induction ys) auto

lemma sort_key_cong_on:
  "\<forall>x\<in>set xs. f x = g x \<Longrightarrow> sort_key f xs = sort_key g xs"
proof (induction xs)
  case Nil
  show ?case by simp
next
  case (Cons x xs)
  then have "sort_key f xs = sort_key g xs" by simp
  moreover have "insort_key f x (sort_key g xs) = insort_key g x (sort_key g xs)"
    using Cons.prems by (intro insort_key_cong_on) simp_all
  ultimately show ?case by simp
qed

lemma py_sort_cong_on:
  assumes "\<forall>x\<in>set xs. f x = g x"
  shows "py_sort f xs = py_sort g xs"
proof -
  have "list_all (\<lambda>x. is_str_key (f x)) xs = list_all (\<lambda>x. is_str_key (g x)) xs"
    and "list_all (\<lambda>x. \<not> is_str_key (f x)) xs = list_all (\<lambda>x. \<not> is_str_key (g x)) xs"
    and "list_ex (\<lambda>x. is_nan_key (f x)) xs = list_ex (\<lambda>x. is_nan_key (g x)) xs"
    using assms by (auto simp: list_all_iff list_ex_iff)
  then show ?thesis
    unfolding py_sort_def using sort_key_cong_on [OF assms] by simp
qed

lemma build_processed_intro:
  "length ds = length data \<Longrightarrow>
   \<forall>i<length data. processed_record (h ! (data ! i)) = Inr (ds ! i) \<Longrightarrow>
   build_processed data h = Inr ds"
proof (induction data arbitrary: ds)
  case Nil
  then show ?case by simp
next
  case (Cons coin rest)
  from Cons.prems(1) obtain d ds' where ds: "ds = d # ds'" by (cases ds) auto
  from Cons.prems(2) [rule_format, of 0] ds have d: "processed_record (h ! coin) = Inr d"
    by simp
  have "\<forall>i<length rest. processed_record (h ! (rest ! i)) = Inr (ds' ! i)"
  proof (intro allI impI)
    fix i assume "i < length rest"
    with Cons.prems(2) [rule_format, of "Suc i"] ds
    show "processed_record (h ! (rest ! i)) = Inr (ds' ! i)" by simp
  qed
  with Cons.IH [of ds'] Cons.prems(1) ds have "build_processed rest h = Inr ds'" by simp
  with d ds show ?case by simp
qed

lemma dict_get_dict_set:
  "dict_get (dict_set d k v) k' dflt = (if k' = k then v else dict_get d k' dflt)"
  by (simp add: dict_get_def field_dict_set)

lemma processed_record_rank:
  "processed_record d = Inr r \<Longrightarrow>
   processed_record (dict_set d ''market_cap_rank'' v) = Inr (dict_set r ''rank'' v)"
proof -
  assume a: "processed_record d = Inr r"
  then obtain x where u: "py_upper (dict_get d ''symbol'' (PStr [])) = Inr x"
    by (auto simp: processed_record_def split: sum.splits)
  with a have "dict_set r ''rank'' v =
     [(''id'', dict_get d ''id'' (PStr [])),
      (''rank'', v),
      (''name'', dict_get d ''name'' (PStr [])),
      (''symbol'', x),
      (''current_price'', dict_get d ''current_price'' PNone),
      (''price_change_24h'', dict_get d ''price_change_24h'' (PInt 0)),
      (''change_symbol'', dict_get d ''change_symbol'' (PStr ''DOWN'')),
      (''market_cap'', dict_get d ''market_cap'' PNone),
      (''volume_24h'', dict_get d ''total_volume'' PNone),
      (''ath'', dict_get d ''ath'' PNone),
      (''image'', dict_get d ''image'' (PStr [])),
      (''date'', dict_get d ''date'' (PStr [])),
      (''last_updated'', dict_get d ''last_updated'' (PStr []))]"
    by (auto simp: processed_record_def dict_set_def)
  moreover from u have "processed_record (dict_set d ''market_cap_rank'' v) = Inr
     [(''id'', dict_get d ''id'' (PStr [])),
      (''rank'', v),
      (''name'', dict_get d ''name'' (PStr [])),
      (''symbol'', x),
      (''current_price'', dict_get d ''current_price'' PNone),
      (''price_change_24h'', dict_get d ''price_change_24h'' (PInt 0)),
      (''change_symbol'', dict_get d ''change_symbol'' (PStr ''DOWN'')),
      (''market_cap'', dict_get d ''market_cap'' PNone),
      (''volume_24h'', dict_get d ''total_volume'' PNone),
      (''ath'', dict_get d ''ath'' PNone),
      (''image'', dict_get d ''image'' (PStr [])),
      (''date'', dict_get d ''date'' (PStr [])),
      (''last_updated'', dict_get d ''last_updated'' (PStr []))]"
    by (simp add: processed_record_def dict_get_dict_set)
  ultimately show ?thesis by simp
qed

lemma processed_record_rank_field:
  "processed_record d = Inr r \<Longrightarrow> map_of r ''rank'' = Some (dict_get d ''market_cap_rank'' PNone)"
  by (auto simp: processed_record_def split: sum.splits)

lemma rank_key_falsy:
  "map_of r ''rank'' = Some v \<Longrightarrow> \<not> py_truthy v \<Longrightarrow> rank_key r = KInf"
  by (simp add: rank_key_def dict_get_def)

lemma rank_key_int:
  "map_of r ''rank'' = Some (PInt n) \<Longrightarrow> n \<noteq> 0 \<Longrightarrow> rank_key r = KNum (Finite (of_int n))"
  by (simp add: rank_key_def dict_get_def)

lemma normalizable_record:
  "normalizable h c \<Longrightarrow>
   \<exists>r. processed_record (h ! c) = Inr r \<and> \<not> is_str_key (rank_key r)
     \<and> \<not> is_nan_key (rank_key r)"
proof -
  assume n: "normalizable h c"
  then obtain s where s: "dict_get (h ! c) ''symbol'' (PStr []) = PStr s"
    by (auto simp: normalizable_def split: pyval.splits)
  then obtain r where r: "processed_record (h ! c) = Inr r"
    by (simp add: processed_record_def)
  define k where "k = (let v = dict_get (h ! c) ''market_cap_rank'' PNone in
       if py_truthy v then key_of_value v else KInf)"
  from n have "\<not> is_str_key k \<and> \<not> is_nan_key k"
    by (auto simp: normalizable_def Let_def k_def split: pyval.splits)
  moreover from processed_record_rank_field [OF r] have "rank_key r = k"
    by (simp add: rank_key_def dict_get_def k_def)
  ultimately show ?thesis using r by blast
qed

lemma normalizer_returns:
  assumes "\<forall>c\<in>set data. normalizable h c"
  shows "\<exists>out h'. process_crypto_data data h = (Inr out, h')"
proof -
  from assms have "\<forall>c\<in>set data. \<exists>d. processed_record (h ! c) = Inr d"
    using normalizable_record by blast
  from build_processed_total [OF this] obtain ds where ds: "build_processed data h = Inr ds"
    by blast
  from build_processed_Inr [OF ds] have len: "length ds = length data"
    and rec: "\<forall>i<length data. processed_record (h ! (data ! i)) = Inr (ds ! i)" by blast+
  have "\<not> is_str_key (rank_key ((h @ ds) ! a)) \<and> \<not> is_nan_key (rank_key ((h @ ds) ! a))"
    if "a \<in> set [length h..<length h + length ds]" for a
  proof -
    from that obtain i where i: "i < length data" and a: "a = length h + i"
      using len by (auto simp: nat_le_iff_add)
    from assms i have "normalizable h (data ! i)" by simp
    from normalizable_record [OF this] rec i
    have "\<not> is_str_key (rank_key (ds ! i)) \<and> \<not> is_nan_key (rank_key (ds ! i))"
      by auto
    then show ?thesis by (simp add: a nth_append)
  qed
  then have "list_all (\<lambda>a. \<not> is_str_key (rank_key ((h @ ds) ! a)))
      [length h..<length h + length ds]"
    and "\<not> list_ex (\<lambda>a. is_nan_key (rank_key ((h @ ds) ! a)))
      [length h..<length h + length ds]"
    unfolding list_all_iff list_ex_iff by blast+
  then have "py_sort (\<lambda>a. rank_key ((h @ ds) ! a)) [length h..<length h + length ds]
      = Inr (sort_key (\<lambda>a. rank_key ((h @ ds) ! a)) [length h..<length h + length ds])"
    by (simp add: py_sort_def)
  with ds show ?thesis by (simp add: process_crypto_data_def Let_def)
qed

lemma zero_rank_as_null:
  assumes run: "process_crypto_data data h = (Inr out, h')"
    and c: "c < length h"
    and zero: "dict_get (h ! c) ''market_cap_rank'' PNone = PInt 0"
  shows "fst (process_crypto_data data (heap_set h c ''market_cap_rank'' PNone)) = Inr out"
proof -
  let ?h0 = "heap_set h c ''market_cap_rank'' PNone"
  from run obtain ds where
    ds: "build_processed data h = Inr ds"
    and srt: "py_sort (\<lambda>a. rank_key ((h @ ds) ! a)) [length h..<length h + length ds] = Inr out"
    by (rule process_Inr)
  from build_processed_Inr [OF ds] have len: "length ds = length data"
    and rec: "\<forall>i<length data. processed_record (h ! (data ! i)) = Inr (ds ! i)" by blast+
  define ds0 where "ds0 = map (\<lambda>i. if data ! i = c then dict_set (ds ! i) ''rank'' PNone else ds ! i)
      [0..<length data]"
  have len0: "length ds0 = length data" by (simp add: ds0_def)
  have rec0: "\<forall>i<length data. processed_record (?h0 ! (data ! i)) = Inr (ds0 ! i)"
  proof (intro allI impI)
    fix i assume i: "i < length data"
    show "processed_record (?h0 ! (data ! i)) = Inr (ds0 ! i)"
    proof (cases "data ! i = c")
      case True
      with rec i have "processed_record (h ! c) = Inr (ds ! i)" by auto
      from processed_record_rank [OF this, of PNone] True i c show ?thesis
        by (simp add: ds0_def heap_set_same)
    next
      case False
      with rec i show ?thesis by (simp add: ds0_def heap_set_other)
    qed
  qed
  have b0: "build_processed data ?h0 = Inr ds0"
    by (rule build_processed_intro [OF len0 rec0])
  have keys: "rank_key (ds0 ! i) = rank_key (ds ! i)" if i: "i < length data" for i
  proof (cases "data ! i = c")
    case True
    with rec i have "processed_record (h ! c) = Inr (ds ! i)" by auto
    from processed_record_rank_field [OF this] zero
    have "map_of (ds ! i) ''rank'' = Some (PInt 0)" by simp
    then have "rank_key (ds ! i) = KInf" by (rule rank_key_falsy) simp
    moreover have "rank_key (dict_set (ds ! i) ''rank'' PNone) = KInf"
      by (rule rank_key_falsy [of _ PNone]) (simp_all add: field_dict_set)
    ultimately show ?thesis using True i by (simp add: ds0_def)
  next
    case False
    with i show ?thesis by (simp add: ds0_def)
  qed
  have "\<forall>a\<in>set [length h..<length h + length ds].
      rank_key ((?h0 @ ds0) ! a) = rank_key ((h @ ds) ! a)"
  proof
    fix a assume "a \<in> set [length h..<length h + length ds]"
    then obtain i where i: "i < length data" and a: "a = length h + i"
      using len by (auto simp: nat_le_iff_add)
    from keys [OF i] show "rank_key ((?h0 @ ds0) ! a) = rank_key ((h @ ds) ! a)"
      by (simp add: a nth_append)
  qed
  from py_sort_cong_on [OF this] srt
  have "py_sort (\<lambda>a. rank_key ((?h0 @ ds0) ! a)) [length h..<length h + length ds] = Inr out"
    by simp
  with b0 len len0 show ?thesis
    by (simp add: process_crypto_data_def Let_def)
qed

text \<open>
  C10. In a batch of records the Normalizer accepts, let the record at position \<open>m\<close> of
  the input have \<^verbatim>\<open>market_cap_rank\<close> 0. Then the Normalizer returns, the fresh record
  of that input record stands at some position \<open>i\<close> of the output with rank 0, every
  record from position \<open>i\<close> on has the sort key infinity, every record with a positive
  integer rank stands before position \<open>i\<close>, and the output order is the one the
  Normalizer produces when that rank is null instead of 0.
\<close>

theorem normalizer_zero_rank_last:
  assumes wf: "\<forall>c\<in>set data. normalizable h c"
    and m: "m < length data"
    and zero: "dict_get (h ! (data ! m)) ''market_cap_rank'' PNone = PInt 0"
  shows "\<exists>out h' i. process_crypto_data data h = (Inr out, h')
      \<and> i < length out \<and> out ! i = length h + m
      \<and> field h' (out ! i) ''rank'' = Some (PInt 0)
      \<and> (\<forall>j<length out. i \<le> j \<longrightarrow> rank_key (h' ! (out ! j)) = KInf)
      \<and> (\<forall>j<length out. \<forall>r. field h' (out ! j) ''rank'' = Some (PInt r) \<and> 0 < r \<longrightarrow> j < i)
      \<and> fst (process_crypto_data data (heap_set h (data ! m) ''market_cap_rank'' PNone))
          = Inr out"
proof -
  from normalizer_returns [OF wf] obtain out h' where
    run: "process_crypto_data data h = (Inr out, h')" by blast
  note f = normalizer_facts [OF run]
  from m f(3) have "length h + m \<in> set out" by simp
  then obtain i where i: "i < length out" and oi: "out ! i = length h + m"
    by (auto simp: in_set_conv_nth)
  have rec: "\<exists>d. processed_record (h ! (data ! m')) = Inr d \<and> \<not> is_str_key (rank_key d)
      \<and> \<not> is_nan_key (rank_key d)
      \<and> h' ! (out ! j) = dict_set d ''number'' (PInt (int j + 1))"
    if j: "j < length out" and oj: "out ! j = length h + m'" and m': "m' < length data"
    for j m'
  proof -
    from f(6) m' obtain d where d: "processed_record (h ! (data ! m')) = Inr d"
      and at: "\<forall>i<length out. out ! i = length h + m' \<longrightarrow>
             h' ! (length h + m') = dict_set d ''number'' (PInt (int i + 1))" by blast
    from wf m' have "normalizable h (data ! m')" by simp
    from normalizable_record [OF this] d
    have "\<not> is_str_key (rank_key d) \<and> \<not> is_nan_key (rank_key d)" by auto
    with d at j oj show ?thesis by auto
  qed
  from rec [OF i oi m] obtain d where
    d: "processed_record (h ! (data ! m)) = Inr d"
    and hd: "h' ! (out ! i) = dict_set d ''number'' (PInt (int i + 1))" by blast
  from processed_record_rank_field [OF d] zero have rd: "map_of d ''rank'' = Some (PInt 0)"
    by simp
  then have rk: "field h' (out ! i) ''rank'' = Some (PInt 0)"
    by (simp add: field_def hd field_dict_set)
  from rd have "rank_key d = KInf" by (rule rank_key_falsy) simp
  then have ki: "rank_key (h' ! (out ! i)) = KInf" by (simp add: hd)
  have region: "rank_key (h' ! (out ! j)) = KInf" if j: "j < length out" and ij: "i \<le> j" for j
  proof -
    from f(7) ij j have "rank_key (h' ! (out ! i)) \<le> rank_key (h' ! (out ! j))"
      using sorted_nth_mono [of "map (\<lambda>a. rank_key (h' ! a)) out" i j] by simp
    then have le: "KInf \<le> rank_key (h' ! (out ! j))" by (simp add: ki)
    from nth_mem [OF j] f(3) obtain m' where m': "m' < length data"
      and oj: "out ! j = length h + m'"
      by (auto simp: nat_le_iff_add)
    from rec [OF j oj m'] have "\<not> is_str_key (rank_key (h' ! (out ! j)))
        \<and> \<not> is_nan_key (rank_key (h' ! (out ! j)))" by auto
    with le show ?thesis
    proof (cases "rank_key (h' ! (out ! j))")
      case (KNum f)
      with le \<open>\<not> is_str_key (rank_key (h' ! (out ! j)))
        \<and> \<not> is_nan_key (rank_key (h' ! (out ! j)))\<close>
      show ?thesis by (cases f) simp_all
    qed simp
  qed
  have pos: "j < i" if j: "j < length out"
    and r: "field h' (out ! j) ''rank'' = Some (PInt r) \<and> 0 < r" for j r
  proof (rule ccontr)
    assume "\<not> j < i"
    then have "rank_key (h' ! (out ! j)) = KInf" using region [OF j] by simp
    moreover from r have "rank_key (h' ! (out ! j)) = KNum (Finite (of_int r))"
      by (intro rank_key_int) (simp_all add: field_def)
    ultimately show False by simp
  qed
  from wf m have "data ! m < length h" by (simp add: normalizable_def)
  from zero_rank_as_null [OF run this zero]
  have nul: "fst (process_crypto_data data (heap_set h (data ! m) ''market_cap_rank'' PNone))
      = Inr out" .
  from run i oi rk region pos nul show ?thesis by blast
qed

section \<open>Normalizing twice\<close>

lemma upper_char_idem: "upper_char (upper_char c) = upper_char c"
proof (cases "97 \<le> (of_char c :: nat) \<and> (of_char c :: nat) \<le> 122")
  case True
  then have "((of_char c :: nat) - 32) mod 256 = of_char c - 32"
    by (intro mod_less) arith
  then have "(of_char (char_of ((of_char c :: nat) - 32)) :: nat) = of_char c - 32"
    by simp
  moreover from True have "\<not> 97 \<le> (of_char c :: nat) - 32" by arith
  ultimately show ?thesis using True by (simp add: upper_char_def Let_def)
next
  case False
  then show ?thesis by (auto simp: upper_char_def Let_def)
qed

lemma str_upper_idem: "str_upper (str_upper s) = str_upper s"
  by (simp add: str_upper_def upper_char_idem)

lemma processed_record_shape:
  assumes "processed_record c = Inr d"
  obtains x1 x2 x3 s x5 x6 x7 x8 x9 x10 x11 x12 x13 where
    "d = [(''id'', x1), (''rank'', x2), (''name'', x3), (''symbol'', PStr (str_upper s)),
          (''current_price'', x5), (''price_change_24h'', x6), (''change_symbol'', x7),
          (''market_cap'', x8), (''volume_24h'', x9), (''ath'', x10), (''image'', x11),
          (''date'', x12), (''last_updated'', x13)]"
proof -
  from assms obtain x where u: "py_upper (dict_get c ''symbol'' (PStr [])) = Inr x"
    by (auto simp: processed_record_def split: sum.splits)
  then obtain s where "x = PStr (str_upper s)"
    by (cases "dict_get c ''symbol'' (PStr [])") auto
  with assms u that show ?thesis by (auto simp: processed_record_def)
qed

lemma reproject_numbered:
  assumes "processed_record c = Inr d"
  shows "processed_record (reproject (dict_set d ''number'' v)) = Inr d"
proof -
  from assms obtain x1 x2 x3 s x5 x6 x7 x8 x9 x10 x11 x12 x13 where
    d: "d = [(''id'', x1), (''rank'', x2), (''name'', x3), (''symbol'', PStr (str_upper s)),
          (''current_price'', x5), (''price_change_24h'', x6), (''change_symbol'', x7),
          (''market_cap'', x8), (''volume_24h'', x9), (''ath'', x10), (''image'', x11),
          (''date'', x12), (''last_updated'', x13)]"
    by (rule processed_record_shape)
  have "reproject (dict_set d ''number'' v) =
      [(''id'', x1), (''market_cap_rank'', x2), (''name'', x3), (''symbol'', PStr (str_upper s)),
       (''current_price'', x5), (''price_change_24h'', x6), (''change_symbol'', x7),
       (''market_cap'', x8), (''total_volume'', x9), (''ath'', x10), (''image'', x11),
       (''date'', x12), (''last_updated'', x13), (''number'', v)]"
    by (simp add: d dict_set_def reproject_def raw_key_def)
  then show ?thesis
    by (simp add: processed_record_def dict_get_def str_upper_idem d)
qed

lemma py_sort_Inr_iff:
  "(\<exists>ys. py_sort f xs = Inr ys) =
     (length xs < 2 \<or>
      (\<not> list_ex (\<lambda>x. is_nan_key (f x)) xs \<and>
       (list_all (\<lambda>x. is_str_key (f x)) xs \<or> list_all (\<lambda>x. \<not> is_str_key (f x)) xs)))"
  by (auto simp: py_sort_def)

lemma py_sort_sorted_input:
  assumes "py_sort f xs = Inr ys" and "map g zs = map f ys"
  shows "py_sort g zs = Inr zs"
proof -
  from py_sort_Inr [OF assms(1)] have ys: "ys = sort_key f xs" .
  have len: "length zs = length xs"
    using arg_cong [OF assms(2), of length] by (simp add: ys)
  have "sorted (map f ys)" unfolding ys by (rule sorted_sort_key)
  then have "sorted (map g zs)" by (simp add: assms(2))
  then have id: "sort_key g zs = zs" by (rule sort_key_id_if_sorted)
  have all: "list_all (\<lambda>x. P (g x)) zs = list_all (\<lambda>x. P (f x)) xs" for P
  proof -
    have "list_all (\<lambda>x. P (g x)) zs = list_all P (map g zs)" by (simp add: list_all_iff)
    also have "\<dots> = list_all P (map f ys)" by (simp add: assms(2))
    also have "\<dots> = list_all (\<lambda>x. P (f x)) xs" by (simp add: list_all_iff ys)
    finally show ?thesis .
  qed
  have ex: "list_ex (\<lambda>x. P (g x)) zs = list_ex (\<lambda>x. P (f x)) xs" for P
  proof -
    have "list_ex (\<lambda>x. P (g x)) zs = list_ex P (map g zs)" by (simp add: list_ex_iff)
    also have "\<dots> = list_ex P (map f ys)" by (simp add: assms(2))
    also have "\<dots> = list_ex (\<lambda>x. P (f x)) xs" by (simp add: list_ex_iff ys)
    finally show ?thesis .
  qed
  from assms(1) have "\<exists>ys. py_sort f xs = Inr ys" by blast
  then have "\<exists>ys. py_sort g zs = Inr ys"
    unfolding py_sort_Inr_iff len all [of is_str_key] all [of "\<lambda>k. \<not> is_str_key k"]
      ex [of is_nan_key] .
  then obtain ws where ws: "py_sort g zs = Inr ws" by blast
  from py_sort_Inr [OF ws] id ws show ?thesis by simp
qed

text \<open>
  C9. When the Normalizer has returned, its output records, re-projected to the raw field
  names and placed in the store as a new batch, are normalized to a sequence of records
  equal to the first output, record by record and key by key, \<open>number\<close> included.
\<close>

theorem normalizer_idempotent:
  assumes run: "process_crypto_data data h = (Inr out, h1)"
  shows "\<exists>out2 h2.
      process_crypto_data [length h1..<length h1 + length out]
        (h1 @ map (\<lambda>a. reproject (h1 ! a)) out) = (Inr out2, h2)
      \<and> map (\<lambda>a. h2 ! a) out2 = map (\<lambda>a. h1 ! a) out"
proof -
  from run obtain ds where
    ds: "build_processed data h = Inr ds"
    and srt: "py_sort (\<lambda>a. rank_key ((h @ ds) ! a)) [length h..<length h + length ds] = Inr out"
    and h1: "h1 = enumerate_set ''number'' 1 out (h @ ds)"
    by (rule process_Inr)
  from build_processed_Inr [OF ds] have len: "length ds = length data"
    and rec: "\<forall>i<length data. processed_record (h ! (data ! i)) = Inr (ds ! i)" by blast+
  note f = normalizer_facts [OF run]
  define n where "n = length h"
  define hin where "hin = h1 @ map (\<lambda>a. reproject (h1 ! a)) out"
  define D2 where "D2 = map (\<lambda>a. ds ! (a - n)) out"
  define P2 where "P2 = [length hin..<length hin + length D2]"
  have lo: "length out = length data" by (rule f(4))
  have range: "n \<le> out ! i \<and> out ! i - n < length data" if "i < length out" for i
    using nth_mem [OF that] f(3) by (auto simp: n_def)
  have e: "h1 ! (out ! i) = dict_set (ds ! (out ! i - n)) ''number'' (PInt (int i + 1))"
    if i: "i < length out" for i
  proof -
    from range [OF i] have "out ! i < length h + length data" unfolding n_def by arith
    then have "out ! i < length (h @ ds)" by (simp add: len)
    from enumerate_set_nth [OF f(2) i this, of "''number''" 1] range [OF i] show ?thesis
      by (simp add: h1 add.commute nth_append n_def)
  qed
  have rec2: "\<forall>i<length [length h1..<length h1 + length out].
      processed_record (hin ! ([length h1..<length h1 + length out] ! i)) = Inr (D2 ! i)"
  proof (intro allI impI)
    fix i assume "i < length [length h1..<length h1 + length out]"
    then have i: "i < length out" by simp
    from range [OF i] rec have "processed_record (h ! (data ! (out ! i - n)))
        = Inr (ds ! (out ! i - n))" by simp
    from reproject_numbered [OF this, of "PInt (int i + 1)"] i
    show "processed_record (hin ! ([length h1..<length h1 + length out] ! i)) = Inr (D2 ! i)"
      by (simp add: hin_def D2_def nth_append e)
  qed
  have b2: "build_processed [length h1..<length h1 + length out] hin = Inr D2"
    by (rule build_processed_intro [OF _ rec2]) (simp add: D2_def)
  have keys: "map (\<lambda>a. rank_key ((hin @ D2) ! a)) P2 = map (\<lambda>a. rank_key ((h @ ds) ! a)) out"
  proof (rule nth_equalityI)
    show "length (map (\<lambda>a. rank_key ((hin @ D2) ! a)) P2)
        = length (map (\<lambda>a. rank_key ((h @ ds) ! a)) out)"
      by (simp add: P2_def D2_def)
  next
    fix i assume "i < length (map (\<lambda>a. rank_key ((hin @ D2) ! a)) P2)"
    then have i: "i < length out" by (simp add: P2_def D2_def)
    from range [OF i] have "(h @ ds) ! (out ! i) = ds ! (out ! i - n)"
      by (simp add: nth_append n_def)
    with i show "map (\<lambda>a. rank_key ((hin @ D2) ! a)) P2 ! i
        = map (\<lambda>a. rank_key ((h @ ds) ! a)) out ! i"
      by (simp add: P2_def D2_def nth_append)
  qed
  from py_sort_sorted_input [OF srt keys]
  have s2: "py_sort (\<lambda>a. rank_key ((hin @ D2) ! a)) P2 = Inr P2" .
  define h2 where "h2 = enumerate_set ''number'' 1 P2 (hin @ D2)"
  from b2 s2 have run2: "process_crypto_data [length h1..<length h1 + length out] hin
      = (Inr P2, h2)"
    by (simp add: process_crypto_data_def Let_def P2_def h2_def)
  have "map (\<lambda>a. h2 ! a) P2 = map (\<lambda>a. h1 ! a) out"
  proof (rule nth_equalityI)
    show "length (map (\<lambda>a. h2 ! a) P2) = length (map (\<lambda>a. h1 ! a) out)"
      by (simp add: P2_def D2_def)
  next
    fix i assume "i < length (map (\<lambda>a. h2 ! a) P2)"
    then have i: "i < length out" and i2: "i < length P2" by (simp_all add: P2_def D2_def)
    have d: "distinct P2" by (simp add: P2_def)
    have "P2 ! i < length (hin @ D2)" using i by (simp add: P2_def D2_def)
    from enumerate_set_nth [OF d i2 this, of "''number''" 1]
    have "h2 ! (P2 ! i) = dict_set ((hin @ D2) ! (P2 ! i)) ''number'' (PInt (int i + 1))"
      by (simp add: h2_def add.commute)
    also have "(hin @ D2) ! (P2 ! i) = ds ! (out ! i - n)"
      using i by (simp add: P2_def D2_def nth_append)
    finally show "map (\<lambda>a. h2 ! a) P2 ! i = map (\<lambda>a. h1 ! a) out ! i"
      using i i2 by (simp add: e)
  qed
  with run2 show ?thesis unfolding hin_def by blast
qed

section \<open>The Normalizer on the sample batches\<close>

text \<open>
  The theorem at the sample batch after the Enhancer and the Normalizer.
\<close>

theorem normalizer_idempotent_witness:
  "\<exists>out2 h2.
      process_crypto_data [length example_normalized..<length example_normalized + length [3, 4, 5 :: nat]]
        (example_normalized @ map (\<lambda>a. reproject (example_normalized ! a)) [3, 4, 5])
        = (Inr out2, h2)
      \<and> map (\<lambda>a. h2 ! a) out2 = map (\<lambda>a. example_normalized ! a) [3, 4, 5]"
  by (rule normalizer_idempotent [OF example_pipeline_eq(1)])

lemma str_upper_samples2:
  "str_upper ''zro'' = ''ZRO''" "str_upper ''one'' = ''ONE''" "str_upper ''nul'' = ''NUL''"
  by code_simp+

lemma example_zero_rank_run:
  "process_crypto_data [0, 1, 2] example_zero_rank =
     (Inr [4, 3, 5],
      example_zero_rank @
      [[(''id'', PStr ''zro''), (''rank'', PInt 0), (''name'', PStr []),
        (''symbol'', PStr ''ZRO''), (''current_price'', PNone),
        (''price_change_24h'', PInt 0), (''change_symbol'', PStr ''DOWN''),
        (''market_cap'', PNone), (''volume_24h'', PNone), (''ath'', PNone),
        (''image'', PStr []), (''date'', PStr []), (''last_updated'', PStr []),
        (''number'', PInt 2)],
       [(''id'', PStr ''one''), (''rank'', PInt 1), (''name'', PStr []),
        (''symbol'', PStr ''ONE''), (''current_price'', PNone),
        (''price_change_24h'', PInt 0), (''change_symbol'', PStr ''DOWN''),
        (''market_cap'', PNone), (''volume_24h'', PNone), (''ath'', PNone),
        (''image'', PStr []), (''date'', PStr []), (''last_updated'', PStr []),
        (''number'', PInt 1)],
       [(''id'', PStr ''nul''), (''rank'', PNone), (''name'', PStr []),
        (''symbol'', PStr ''NUL''), (''current_price'', PNone),
        (''price_change_24h'', PInt 0), (''change_symbol'', PStr ''DOWN''),
        (''market_cap'', PNone), (''volume_24h'', PNone), (''ath'', PNone),
        (''image'', PStr []), (''date'', PStr []), (''last_updated'', PStr []),
        (''number'', PInt 3)]])"
  by (simp add: example_zero_rank_def process_crypto_data_def
       processed_record_def dict_get_def str_upper_samples2 py_sort_def rank_key_def
       heap_set_def dict_set_def Let_def upt_rec nth_append)

text \<open>
  C1 on the batch with ranks 0, 1 and null: the record of rank 1 is numbered 1 and the
  record of rank 0 is numbered 2, so the output is not ascending by rank.
\<close>

theorem normalizer_zero_rank_after_one:
  "fst (process_crypto_data [0, 1, 2] example_zero_rank) = Inr [4, 3, 5]
   \<and> field (snd (process_crypto_data [0, 1, 2] example_zero_rank)) 4 ''rank'' = Some (PInt 1)
   \<and> field (snd (process_crypto_data [0, 1, 2] example_zero_rank)) 4 ''number'' = Some (PInt 1)
   \<and> field (snd (process_crypto_data [0, 1, 2] example_zero_rank)) 3 ''rank'' = Some (PInt 0)
   \<and> field (snd (process_crypto_data [0, 1, 2] example_zero_rank)) 3 ''number'' = Some (PInt 2)"
  unfolding example_zero_rank_run
  by (simp add: field_def example_zero_rank_def)

text \<open>
  The theorem at the batch with ranks 0, 1 and null.
\<close>

theorem normalizer_zero_rank_last_witness:
  "fst (process_crypto_data [0, 1, 2] example_zero_rank) = Inr [4, 3, 5]
   \<and> fst (process_crypto_data [0, 1, 2]
          (heap_set example_zero_rank 0 ''market_cap_rank'' PNone)) = Inr [4, 3, 5]"
proof -
  have wf: "\<forall>c\<in>set [0, 1, 2]. normalizable example_zero_rank c"
    by (simp add: normalizable_def example_zero_rank_def dict_get_def)
  have m: "0 < length [0, 1, 2 :: nat]" by simp
  have zero: "dict_get (example_zero_rank ! ([0, 1, 2] ! 0)) ''market_cap_rank'' PNone = PInt 0"
    by (simp add: example_zero_rank_def dict_get_def)
  from normalizer_zero_rank_last [OF wf m zero] obtain out h' where
    run: "process_crypto_data [0, 1, 2] example_zero_rank = (Inr out, h')"
    and nul: "fst (process_crypto_data [0, 1, 2]
        (heap_set example_zero_rank ([0, 1, 2] ! 0) ''market_cap_rank'' PNone)) = Inr out"
    by (elim exE conjE)
  from run example_zero_rank_run have "out = [4, 3, 5]" by simp
  with run nul show ?thesis by simp
qed

lemma build_processed_fails:
  "c \<in> set data \<Longrightarrow> processed_record (h ! c) = Inl e \<Longrightarrow>
   \<exists>e'. build_processed data h = Inl e'"
  by (induction data) (auto split: sum.splits)

lemma build_processed_error:
  "build_processed data h = Inl e \<Longrightarrow> e = AttributeError"
proof (induction data)
  case Nil
  then show ?case by simp
next
  case (Cons c cs)
  have "e' = AttributeError" if "processed_record (h ! c) = Inl e'" for e'
    using that
    by (cases "dict_get (h ! c) ''symbol'' (PStr [])")
       (simp_all add: processed_record_def)
  with Cons show ?case by (auto split: sum.splits)
qed

text \<open>
  A record whose \<^verbatim>\<open>symbol\<close> is null makes the Normalizer raise: \<^verbatim>\<open>None\<close> has no
  \<^verbatim>\<open>upper\<close>.
\<close>

lemma normalizer_null_symbol_raises:
  assumes "coin \<in> set data" and "dict_get (h ! coin) ''symbol'' (PStr []) = PNone"
  shows "process_crypto_data data h = (Inl AttributeError, h)"
proof -
  from assms(2) have "processed_record (h ! coin) = Inl AttributeError"
    by (simp add: processed_record_def)
  from build_processed_fails [OF assms(1) this] obtain e where
    e: "build_processed data h = Inl e" by blast
  with build_processed_error [OF e] show ?thesis
    by (simp add: process_crypto_data_def)
qed

end
